theory Spec2Isabelle
  imports Complex_Main "HOL-Library.Word"
begin

section \<open>deadlock/core.py: the passphrase gate\<close>

text \<open>
  The module \<^verbatim>\<open>core.py\<close> is glue around two collaborators whose code is not part
  of the sources: \<^verbatim>\<open>crypto\<close> (identities and the miniLock container) and
  \<^verbatim>\<open>passwords\<close> (the zxcvbn strength estimator and the phrase generator). Their
  functions are parameters of the model, collected in the record \<open>deps\<close>; everything
  \<^verbatim>\<open>core.py\<close> itself does is translated statement by statement.
\<close>

subsection \<open>Values\<close>

type_synonym bytes = "8 word list"

text \<open>The exceptions that can leave a function of \<^verbatim>\<open>core.py\<close>.\<close>

datatype error =
    ValueError
  | TypeError
  | EOFError
  | OSError string
  | SystemExit nat
  | InvalidIdentifier
  | UnsupportedVersion
  | TruncatedContainer
  | NoMatchingRecipient
  | AuthenticationFailure

text \<open>
  \<^verbatim>\<open>class Settings: minPassphraseEntropy = 100; minKeyEntropy = 100\<close>: two class
  attributes, process-wide and assignable.
\<close>

record Settings =
  minPassphraseEntropy :: real
  minKeyEntropy :: real

definition default_Settings :: Settings where
  "default_Settings = \<lparr>minPassphraseEntropy = 100, minKeyEntropy = 100\<rparr>"

text \<open>
  The dictionary returned by \<^verbatim>\<open>zxcvbn.password_strength\<close>; \<^verbatim>\<open>core.py\<close> reads the
  keys \<^verbatim>\<open>entropy\<close> and \<^verbatim>\<open>crack_time_display\<close>.
\<close>

record score =
  entropy :: real
  crack_time_display :: string

subsection \<open>String splitting as Python does it\<close>

text \<open>\<^verbatim>\<open>s.split(c)\<close> for a one-character separator: one more piece than separators.\<close>

fun split_sep :: "char \<Rightarrow> string \<Rightarrow> string list" where
  "split_sep c [] = [[]]"
| "split_sep c (x # xs) =
     (if x = c then [] # split_sep c xs
      else (x # hd (split_sep c xs)) # tl (split_sep c xs))"

text \<open>\<^verbatim>\<open>s.rsplit(c, 1)[0]\<close>: what stands before the last separator, or all of \<open>s\<close>.\<close>

definition rsplit1_head :: "char \<Rightarrow> string \<Rightarrow> string" where
  "rsplit1_head c s =
     (if c \<in> set s then rev (tl (dropWhile (\<lambda>x. x \<noteq> c) (rev s))) else s)"

text \<open>\<^verbatim>\<open>user, domain = parts\<close>: unpacking raises \<^verbatim>\<open>ValueError\<close> unless there are two.\<close>

definition unpack2 :: "string list \<Rightarrow> error + (string \<times> string)" where
  "unpack2 parts = (case parts of [a, b] \<Rightarrow> Inr (a, b) | _ \<Rightarrow> Inl ValueError)"

text \<open>
  The body of the \<^verbatim>\<open>try\<close> block of \<^verbatim>\<open>check_passphrase\<close>:
  \<^verbatim>\<open>user, domain = email.split("@"); domain = domain.rsplit(".", 1)[0]\<close>.
\<close>

definition split_email :: "string \<Rightarrow> error + (string \<times> string)" where
  "split_email email =
     (case unpack2 (split_sep CHR ''@'' email) of
        Inl e \<Rightarrow> Inl e
      | Inr (user, domain) \<Rightarrow> Inr (user, rsplit1_head CHR ''.'' domain))"

text \<open>
  The \<^verbatim>\<open>try\<close>/\<^verbatim>\<open>except\<close> as a whole: the list \<^verbatim>\<open>[user, domain]\<close> handed to the
  estimator as \<^verbatim>\<open>user_inputs\<close>. The bare \<^verbatim>\<open>except\<close> catches every exception and sets
  both names to the email.
\<close>

definition user_inputs :: "string \<Rightarrow> string list" where
  "user_inputs email =
     (case split_email email of
        Inl e \<Rightarrow> [email, email]
      | Inr (user, domain) \<Rightarrow> [user, domain])"

subsection \<open>The collaborators of the passphrase gate\<close>

text \<open>
  \<^verbatim>\<open>from .passwords import zxcvbn, phrase\<close>. The estimator is a function of the
  candidate and the context hints. The generator draws at random: \<open>generate_phrase n i\<close>
  is the phrase of \<open>n\<close> words that the \<open>i\<close>-th draw of the process returns.
\<close>

record passwords =
  password_strength :: "string \<Rightarrow> string list \<Rightarrow> score"
  generate_phrase :: "nat \<Rightarrow> nat \<Rightarrow> string"

subsection \<open>check_passphrase\<close>

text \<open>
  \<^verbatim>\<open>score = zxcvbn.password_strength(pp, user_inputs=[user, domain])\<close>, then the
  comparison with \<^verbatim>\<open>Settings.minKeyEntropy\<close>. \<open>S\<close> is the value of the class
  \<^verbatim>\<open>Settings\<close> when the function is called.
\<close>

definition check_passphrase :: "passwords \<Rightarrow> Settings \<Rightarrow> string \<Rightarrow> string \<Rightarrow> bool \<times> score" where
  "check_passphrase W S pp email =
     (let score = password_strength W pp (user_inputs email)
      in if minKeyEntropy S \<le> entropy score then (True, score) else (False, score))"

subsection \<open>make_random_phrase\<close>

text \<open>
  \<^verbatim>\<open>while True: p = phrase.generate_phrase(7); if check_passphrase(p, email)[0]: return p\<close>.
  The loop has no bound: where no later draw passes the gate it runs forever, which is
  the value \<open>None\<close>. The state is the number of draws made so far.
\<close>

partial_function (option) make_random_phrase ::
  "passwords \<Rightarrow> Settings \<Rightarrow> string \<Rightarrow> nat \<Rightarrow> (string \<times> nat) option" where
  "make_random_phrase W S email n =
     (let p = generate_phrase W 7 n
      in if fst (check_passphrase W S p email) then Some (p, Suc n)
         else make_random_phrase W S email (Suc n))"

declare make_random_phrase.simps [code]

section \<open>The world around the functions\<close>

text \<open>
  A value a Python caller may pass where a key is expected: a miniLock identifier
  (\<^verbatim>\<open>str\<close>), a \<^verbatim>\<open>crypto.UserLock\<close>, or an object of some other type.
\<close>

datatype 'k pyobj = PyStr string | PyUserLock 'k | PyOther

datatype pytype = T_str | T_UserLock

text \<open>A path names a regular file, a directory, or something else (a device, a socket).\<close>

datatype node = File bytes | Dir | Special

text \<open>
  What a run does that can be observed from outside, in the order it happens: lines read
  from the terminal, lines printed, files read and written, and the calls into
  \<^verbatim>\<open>crypto\<close>.
\<close>

datatype 'k event =
    Typed string
  | Printed_insufficient score
  | Printed_suggestion string
  | Printed_user_id string
  | Printed_saving string
  | Printed_error string
  | Derived string string
  | Asserted string "'k pyobj" "pytype list"
  | Path_checked string
  | File_read string
  | File_written string bytes
  | Sealed nat string bytes "'k pyobj" "'k pyobj list"
  | Parsed bytes
  | Opened "'k pyobj"

text \<open>How a call ends: it returns, it raises, or it never comes back.\<close>

datatype 'a outcome = Returned 'a | Raised error | Diverged

text \<open>
  The state outside the arguments: the file system, the class \<^verbatim>\<open>Settings\<close>, the lines
  the user is going to type, and the number of random draws made so far.
\<close>

record world =
  files :: "string \<rightharpoonup> node"
  settings :: Settings
  typed :: "string list"
  rand :: nat

text \<open>
  \<^verbatim>\<open>from . import crypto\<close>: the functions of the module that \<^verbatim>\<open>core.py\<close> calls.
  \<open>'k\<close> is \<^verbatim>\<open>crypto.UserLock\<close>, \<open>'c\<close> is \<^verbatim>\<open>crypto.MiniLockFile\<close>.
  \<open>assert_type_and_length\<close> returns \<open>None\<close> when it returns and the exception when it
  raises. \<open>MiniLockFile_new\<close> draws fresh keys: its first argument is the index of the
  draw. Its result is the attribute \<^verbatim>\<open>contents\<close> of the object it builds.
\<close>

record ('k, 'c) crypto =
  from_passphrase :: "string \<Rightarrow> string \<Rightarrow> 'k"
  userID :: "'k \<Rightarrow> string"
  assert_type_and_length :: "string \<Rightarrow> 'k pyobj \<Rightarrow> pytype list \<Rightarrow> error option"
  MiniLockFile_new :: "nat \<Rightarrow> string \<Rightarrow> bytes \<Rightarrow> 'k pyobj \<Rightarrow> 'k pyobj list \<Rightarrow> error + bytes"
  MiniLockFile :: "bytes \<Rightarrow> error + 'c"
  decrypt :: "'c \<Rightarrow> 'k pyobj \<Rightarrow> error + string \<times> bytes"
  b64encode :: "bytes \<Rightarrow> bytes"
  b64decode :: "bytes \<Rightarrow> error + bytes"

section \<open>make_lock_securely\<close>

text \<open>
  The \<^verbatim>\<open>while True\<close> loop of \<^verbatim>\<open>make_lock_securely\<close>. Each round reads one line with
  \<^verbatim>\<open>getpass.getpass\<close> (\<^verbatim>\<open>EOFError\<close> when the terminal has no more), checks it, and
  either leaves the loop with it or prints the verdict and a suggestion. The result is
  how the loop ends, the lines left, the draws made, and the events in order.
\<close>

fun make_lock_securely_loop ::
  "passwords \<Rightarrow> Settings \<Rightarrow> string \<Rightarrow> string list \<Rightarrow> nat
     \<Rightarrow> string outcome \<times> string list \<times> nat \<times> 'k event list" where
  "make_lock_securely_loop W S email [] n = (Raised EOFError, [], n, [])"
| "make_lock_securely_loop W S email (passphrase # rest) n =
     (case check_passphrase W S passphrase email of
        (ok, score) \<Rightarrow>
          if ok then (Returned passphrase, rest, n, [Typed passphrase])
          else (case make_random_phrase W S email n of
                  None \<Rightarrow> (Diverged, rest, n, [Typed passphrase, Printed_insufficient score])
                | Some (p, n') \<Rightarrow>
                    (case make_lock_securely_loop W S email rest n' of
                       (r, rest', n'', evs) \<Rightarrow>
                         (r, rest', n'',
                          Typed passphrase # Printed_insufficient score
                            # Printed_suggestion p # evs))))"

text \<open>
  \<^verbatim>\<open>email = input(...)\<close>, the loop, then
  \<^verbatim>\<open>key = crypto.UserLock.from_passphrase(email, passphrase); return key\<close>.
\<close>

definition make_lock_securely ::
  "passwords \<Rightarrow> ('k, 'c) crypto \<Rightarrow> world \<Rightarrow> 'k outcome \<times> world \<times> 'k event list" where
  "make_lock_securely W C w =
     (case typed w of
        [] \<Rightarrow> (Raised EOFError, w, [])
      | email # lines \<Rightarrow>
          (case make_lock_securely_loop W (settings w) email lines (rand w) of
             (r, rest, n, evs) \<Rightarrow>
               (let w' = w\<lparr>typed := rest, rand := n\<rparr>
                in case r of
                     Returned passphrase \<Rightarrow>
                       (Returned (from_passphrase C email passphrase), w',
                        Typed email # evs @ [Derived email passphrase])
                   | Raised e \<Rightarrow> (Raised e, w', Typed email # evs)
                   | Diverged \<Rightarrow> (Diverged, w', Typed email # evs))))"


section \<open>Files\<close>

text \<open>
  \<^verbatim>\<open>os.path.exists\<close>, \<^verbatim>\<open>os.path.isfile\<close>, \<^verbatim>\<open>os.path.isdir\<close> on the file system
  of the model.
\<close>

definition path_exists :: "(string \<rightharpoonup> node) \<Rightarrow> string \<Rightarrow> bool" where
  "path_exists fs p = (case fs p of None \<Rightarrow> False | Some nd \<Rightarrow> True)"

definition path_isfile :: "(string \<rightharpoonup> node) \<Rightarrow> string \<Rightarrow> bool" where
  "path_isfile fs p = (case fs p of Some (File bs) \<Rightarrow> True | _ \<Rightarrow> False)"

definition path_isdir :: "(string \<rightharpoonup> node) \<Rightarrow> string \<Rightarrow> bool" where
  "path_isdir fs p = (case fs p of Some Dir \<Rightarrow> True | _ \<Rightarrow> False)"

text \<open>
  \<^verbatim>\<open>os.path.split(p)[1]\<close> of \<^verbatim>\<open>posixpath\<close>: what follows the last slash.
\<close>

definition path_split_tail :: "string \<Rightarrow> string" where
  "path_split_tail p = rev (takeWhile (\<lambda>c. c \<noteq> CHR ''/'') (rev p))"

text \<open>
  \<^verbatim>\<open>with open(p, "rb") as I: I.read()\<close>. A regular file gives its bytes; a missing path
  or a directory raises an \<^verbatim>\<open>OSError\<close>, and so does, in this model, a special file.
\<close>

definition open_rb :: "(string \<rightharpoonup> node) \<Rightarrow> string \<Rightarrow> error + bytes" where
  "open_rb fs p = (case fs p of Some (File bs) \<Rightarrow> Inr bs | _ \<Rightarrow> Inl (OSError p))"

text \<open>
  \<^verbatim>\<open>with open(p, "wb") as O: O.write(data)\<close>: creates or replaces a regular file; a
  path that names a directory raises.
\<close>

definition open_wb :: "(string \<rightharpoonup> node) \<Rightarrow> string \<Rightarrow> bytes \<Rightarrow> error + (string \<rightharpoonup> node)" where
  "open_wb fs p bs = (case fs p of Some Dir \<Rightarrow> Inl (OSError p) | _ \<Rightarrow> Inr (fs(p \<mapsto> File bs)))"

section \<open>encrypt_file, decrypt_file, encrypt_folder\<close>

text \<open>
  \<^verbatim>\<open>for recipient_key in recipients: crypto.assert_type_and_length('recipient_key',
  recipient_key, (str, crypto.UserLock))\<close>: the loop stops at the first call that raises.
\<close>

fun assert_recipients :: "('k, 'c) crypto \<Rightarrow> 'k pyobj list \<Rightarrow> error option \<times> 'k event list" where
  "assert_recipients C [] = (None, [])"
| "assert_recipients C (recipient_key # rest) =
     (case assert_type_and_length C ''recipient_key'' recipient_key [T_str, T_UserLock] of
        Some e \<Rightarrow> (Some e, [Asserted ''recipient_key'' recipient_key [T_str, T_UserLock]])
      | None \<Rightarrow>
          (case assert_recipients C rest of
             (r, evs) \<Rightarrow> (r, Asserted ''recipient_key'' recipient_key [T_str, T_UserLock] # evs)))"

text \<open>
  \<^verbatim>\<open>encrypt_file(file_path, sender, recipients)\<close>: the result or the exception, the
  world afterwards, and the events of the call.
\<close>

definition encrypt_file ::
  "('k, 'c) crypto \<Rightarrow> world \<Rightarrow> string \<Rightarrow> 'k pyobj \<Rightarrow> 'k pyobj list
     \<Rightarrow> (error + bytes) \<times> world \<times> 'k event list" where
  "encrypt_file C w file_path sender recipients =
     (case assert_recipients C recipients of
        (Some e, evs) \<Rightarrow> (Inl e, w, evs)
      | (None, evs) \<Rightarrow>
          (case assert_type_and_length C ''sender_key'' sender [T_UserLock] of
             Some e \<Rightarrow> (Inl e, w, evs @ [Asserted ''sender_key'' sender [T_UserLock]])
           | None \<Rightarrow>
               if \<not> path_exists (files w) file_path \<or> \<not> path_isfile (files w) file_path
               then (Inl (OSError (''Specified path does not point to a valid file: '' @ file_path)),
                     w,
                     evs @ [Asserted ''sender_key'' sender [T_UserLock], Path_checked file_path])
               else
                 (let filename = path_split_tail file_path in
                  case open_rb (files w) file_path of
                    Inl e \<Rightarrow>
                      (Inl e, w,
                       evs @ [Asserted ''sender_key'' sender [T_UserLock], Path_checked file_path,
                              File_read file_path])
                  | Inr contents \<Rightarrow>
                      (MiniLockFile_new C (rand w) filename contents sender recipients,
                       w\<lparr>rand := Suc (rand w)\<rparr>,
                       evs @ [Asserted ''sender_key'' sender [T_UserLock], Path_checked file_path,
                              File_read file_path,
                              Sealed (rand w) filename contents sender recipients]))))"

text \<open>\<^verbatim>\<open>decrypt_file(file_path, recipient_key, base64=False)\<close>.\<close>

definition decrypt_file ::
  "('k, 'c) crypto \<Rightarrow> world \<Rightarrow> string \<Rightarrow> 'k pyobj \<Rightarrow> bool
     \<Rightarrow> (error + string \<times> bytes) \<times> world \<times> 'k event list" where
  "decrypt_file C w file_path recipient_key base64 =
     (case assert_type_and_length C ''recipient_key'' recipient_key [T_UserLock] of
        Some e \<Rightarrow> (Inl e, w, [Asserted ''recipient_key'' recipient_key [T_UserLock]])
      | None \<Rightarrow>
          (case open_rb (files w) file_path of
             Inl e \<Rightarrow>
               (Inl e, w, [Asserted ''recipient_key'' recipient_key [T_UserLock], File_read file_path])
           | Inr contents \<Rightarrow>
               (case (if base64 then b64decode C contents else Inr contents) of
                  Inl e \<Rightarrow>
                    (Inl e, w,
                     [Asserted ''recipient_key'' recipient_key [T_UserLock], File_read file_path])
                | Inr contents' \<Rightarrow>
                    (case MiniLockFile C contents' of
                       Inl e \<Rightarrow>
                         (Inl e, w,
                          [Asserted ''recipient_key'' recipient_key [T_UserLock],
                           File_read file_path, Parsed contents'])
                     | Inr crypted \<Rightarrow>
                         (decrypt C crypted recipient_key, w,
                          [Asserted ''recipient_key'' recipient_key [T_UserLock],
                           File_read file_path, Parsed contents', Opened recipient_key])))))"

text \<open>
  What \<^verbatim>\<open>core.py\<close> takes from the standard library beyond single files:
  \<open>zip_tree fs path\<close> is the archive that \<^verbatim>\<open>zipfile\<close> and \<^verbatim>\<open>os.walk\<close> build of the
  files under \<open>path\<close> (or the exception reading one of them raises), and
  \<open>urandom k i\<close> are the \<open>k\<close> bytes of the \<open>i\<close>-th random draw.
\<close>

record stdlib =
  zip_tree :: "(string \<rightharpoonup> node) \<Rightarrow> string \<Rightarrow> error + bytes"
  urandom :: "nat \<Rightarrow> nat \<Rightarrow> bytes"

text \<open>\<^verbatim>\<open>encrypt_folder(path, sender, recipients)\<close>.\<close>

definition encrypt_folder ::
  "('k, 'c) crypto \<Rightarrow> stdlib \<Rightarrow> world \<Rightarrow> string \<Rightarrow> 'k pyobj \<Rightarrow> 'k pyobj list
     \<Rightarrow> (error + bytes) \<times> world \<times> 'k event list" where
  "encrypt_folder C Y w path sender recipients =
     (case assert_recipients C recipients of
        (Some e, evs) \<Rightarrow> (Inl e, w, evs)
      | (None, evs) \<Rightarrow>
          (case assert_type_and_length C ''sender_key'' sender [T_UserLock] of
             Some e \<Rightarrow> (Inl e, w, evs @ [Asserted ''sender_key'' sender [T_UserLock]])
           | None \<Rightarrow>
               if \<not> path_exists (files w) path \<or> \<not> path_isdir (files w) path
               then (Inl (OSError (''Specified path is not a valid directory: '' @ path)), w,
                     evs @ [Asserted ''sender_key'' sender [T_UserLock], Path_checked path])
               else
                 (case zip_tree Y (files w) path of
                    Inl e \<Rightarrow>
                      (Inl e, w,
                       evs @ [Asserted ''sender_key'' sender [T_UserLock], Path_checked path,
                              File_read path])
                  | Inr zip_contents \<Rightarrow>
                      (let filename = path_split_tail path @ ''.zip'' in
                       (MiniLockFile_new C (rand w) filename zip_contents sender recipients,
                        w\<lparr>rand := Suc (rand w)\<rparr>,
                        evs @ [Asserted ''sender_key'' sender [T_UserLock], Path_checked path,
                               File_read path,
                               Sealed (rand w) filename zip_contents sender recipients])))))"

section \<open>main_encrypt\<close>

text \<open>
  The parsed command line of the \<^verbatim>\<open>encrypt\<close> subcommand; \<open>output_file\<close> is
  \<^verbatim>\<open>A.output\<close>.
\<close>

record args =
  path :: string
  recipient :: "string list"
  base64 :: bool
  output_file :: string

text \<open>\<^verbatim>\<open>int.from_bytes(bs, 'big')\<close> and \<^verbatim>\<open>hex(n)\<close>.\<close>

definition int_from_bytes_big :: "bytes \<Rightarrow> int" where
  "int_from_bytes_big bs = foldl (\<lambda>acc b. acc * 256 + uint b) 0 bs"

function hex_digits :: "int \<Rightarrow> string" where
  "hex_digits n =
     (if n < 16 then [''0123456789abcdef'' ! nat n]
      else hex_digits (n div 16) @ [''0123456789abcdef'' ! nat (n mod 16)])"
  by pat_completeness auto
termination
  by (relation "measure nat") auto

definition hex :: "int \<Rightarrow> string" where
  "hex n = (if n < 0 then ''-0x'' @ hex_digits (- n) else ''0x'' @ hex_digits n)"

text \<open>
  \<^verbatim>\<open>main_encrypt(A)\<close>. \<^verbatim>\<open>error_out\<close> prints and leaves with \<^verbatim>\<open>sys.exit(1)\<close>. The
  recipients handed on are \<^verbatim>\<open>[userKey] + A.recipient\<close>.
\<close>

definition main_encrypt ::
  "passwords \<Rightarrow> ('k, 'c) crypto \<Rightarrow> stdlib \<Rightarrow> world \<Rightarrow> args
     \<Rightarrow> unit outcome \<times> world \<times> 'k event list" where
  "main_encrypt W C Y w A =
     (case make_lock_securely W C w of
        (Raised e, w1, evs) \<Rightarrow> (Raised e, w1, evs)
      | (Diverged, w1, evs) \<Rightarrow> (Diverged, w1, evs)
      | (Returned userKey, w1, evs) \<Rightarrow>
          (let evs1 = evs @ [Printed_user_id (userID C userKey)] in
           if \<not> path_exists (files w1) (path A)
           then (Raised (SystemExit 1), w1,
                 evs1 @ [Printed_error (''File or directory '' @ path A @ '' does not exist.'')])
           else
             (case (if path_isfile (files w1) (path A)
                    then encrypt_file C w1 (path A) (PyUserLock userKey)
                           (PyUserLock userKey # map PyStr (recipient A))
                    else if path_isdir (files w1) (path A)
                    then encrypt_folder C Y w1 (path A) (PyUserLock userKey)
                           (PyUserLock userKey # map PyStr (recipient A))
                    else (Inl (SystemExit 1), w1,
                          [Printed_error
                             (''Specified path '' @ path A @ '' is neither a file nor a folder.'')]))
              of
                (Inl e, w2, evs2) \<Rightarrow> (Raised e, w2, evs1 @ evs2)
              | (Inr crypted, w2, evs2) \<Rightarrow>
                  (let crypted' = (if base64 A then b64encode C crypted else crypted);
                       out = (if output_file A = []
                              then hex (int_from_bytes_big (urandom Y 6 (rand w2))) @ ''.minilock''
                              else output_file A);
                       w3 = (if output_file A = [] then w2\<lparr>rand := Suc (rand w2)\<rparr> else w2)
                   in case open_wb (files w3) out crypted' of
                        Inl e \<Rightarrow> (Raised e, w3, evs1 @ evs2 @ [Printed_saving out])
                      | Inr fs \<Rightarrow>
                          (Returned (), w3\<lparr>files := fs\<rparr>,
                           evs1 @ evs2 @ [Printed_saving out, File_written out crypted'])))))"


section \<open>The container of the specification\<close>

text \<open>
  \<^verbatim>\<open>core.py\<close> imports \<^verbatim>\<open>crypto\<close> from its own package, and the module is not among the
  sources: what \<^verbatim>\<open>MiniLockFile.new\<close>, \<^verbatim>\<open>MiniLockFile(contents)\<close> and \<^verbatim>\<open>decrypt\<close> do is
  taken from the specification (sections 3 and 4.3 to 4.5), with the names it uses.
\<close>

text \<open>
  Modelled from the spec: the \<^verbatim>\<open>Identity\<close> of section 3,
  \<^verbatim>\<open>{publicKey, secretKey, id}\<close>, which is the \<^verbatim>\<open>UserLock\<close> of the absent module.
  The field \<^verbatim>\<open>id\<close> is \<open>ident\<close> here.
\<close>

record Identity =
  publicKey :: bytes
  secretKey :: bytes
  ident :: string

text \<open>
  Modelled from the spec: \<^verbatim>\<open>FileInfo\<close> of section 3,
  \<^verbatim>\<open>{fileKey, fileNonce, fileName, senderPublicKey, chunkHashes}\<close>.
\<close>

record FileInfo =
  fileKey :: bytes
  fileNonce :: bytes
  fileName :: string
  senderPublicKey :: bytes
  chunkHashes :: "bytes list"

text \<open>
  Modelled from the spec: \<^verbatim>\<open>RecipientEntry\<close> of section 3,
  \<^verbatim>\<open>{lookupTag, wrappedFileInfo}\<close>; \<open>'w\<close> is the type of the ciphertext of a
  \<^verbatim>\<open>FileInfo\<close>.
\<close>

record 'w RecipientEntry =
  lookupTag :: bytes
  wrappedFileInfo :: 'w

text \<open>
  Modelled from the spec: one authenticated chunk of the body, with the one-bit marker of
  section 4.4 that tags the last chunk.
\<close>

record chunk =
  final :: bool
  ciphertext :: bytes

text \<open>
  Modelled from the spec: \<^verbatim>\<open>Container\<close> of section 3,
  \<^verbatim>\<open>{version, ephemeralPublicKey, entries, body}\<close>. The entries have no required order
  and are scanned for the first match, so they are a list.
\<close>

record 'w Container =
  version :: nat
  ephemeralPublicKey :: bytes
  entries :: "'w RecipientEntry list"
  body :: "chunk list"

text \<open>
  The primitives that the specification names and leaves to a library: the public key of a
  secret key, authenticated public-key encryption of a \<^verbatim>\<open>FileInfo\<close> (\<open>box e pk\<close> from
  the secret key \<open>e\<close> to the public key \<open>pk\<close>, \<open>box_open r epk\<close> with the
  recipient's secret key and the sender's public key), the keyed hash of a public key under the
  fixed context, authenticated encryption of a chunk under a key and a nonce, the hash of a
  ciphertext chunk, the nonce of the chunk of a given index, and the size of a chunk.
  \<^verbatim>\<open>IdentifierCodec.decode\<close>, on which the round trip does not turn, is a parameter as
  well.
\<close>

record 'w primitives =
  keypair :: "bytes \<Rightarrow> bytes"
  box :: "bytes \<Rightarrow> bytes \<Rightarrow> FileInfo \<Rightarrow> 'w"
  box_open :: "bytes \<Rightarrow> bytes \<Rightarrow> 'w \<Rightarrow> FileInfo option"
  keyed_hash :: "bytes \<Rightarrow> bytes"
  secretbox :: "bytes \<Rightarrow> bytes \<Rightarrow> bytes \<Rightarrow> bytes"
  secretbox_open :: "bytes \<Rightarrow> bytes \<Rightarrow> bytes \<Rightarrow> bytes option"
  digest :: "bytes \<Rightarrow> bytes"
  chunk_nonce :: "bytes \<Rightarrow> nat \<Rightarrow> bytes"
  chunk_size :: nat
  decode :: "string \<Rightarrow> error + bytes"

text \<open>
  Modelled from the spec: \<^verbatim>\<open>wrap(ephemeralSecretKey, recipientPublicKey, fileInfo)\<close> of
  section 4.3. The tag is the keyed hash of the recipient's public key and does not depend
  on the ephemeral key.
\<close>

definition wrap :: "'w primitives \<Rightarrow> bytes \<Rightarrow> bytes \<Rightarrow> FileInfo \<Rightarrow> 'w RecipientEntry" where
  "wrap P esk pk fileInfo =
     \<lparr>lookupTag = keyed_hash P pk,
      wrappedFileInfo = box P esk pk fileInfo\<rparr>"

text \<open>
  Modelled from the spec: \<^verbatim>\<open>unwrap(recipientSecretKey, ephemeralPublicKey, entries)\<close> of
  section 4.3. For each entry the tag is recomputed from the recipient's own public key; on
  the first match the entry is decrypted, and a failure there is \<^verbatim>\<open>NoMatchingRecipient\<close>
  like no match at all.
\<close>

fun unwrap :: "'w primitives \<Rightarrow> bytes \<Rightarrow> bytes \<Rightarrow> 'w RecipientEntry list \<Rightarrow> error + FileInfo" where
  "unwrap P sk epk [] = Inl NoMatchingRecipient"
| "unwrap P sk epk (e # es) =
     (if lookupTag e = keyed_hash P (keypair P sk)
      then (case box_open P sk epk (wrappedFileInfo e) of
              None \<Rightarrow> Inl NoMatchingRecipient
            | Some fileInfo \<Rightarrow> Inr fileInfo)
      else unwrap P sk epk es)"

text \<open>
  Modelled from the spec: the split of the plaintext into chunks of the fixed size of
  section 4.4; the final chunk may be shorter, or empty (for a file of length zero or a
  multiple of the size).
\<close>

fun split_chunks :: "nat \<Rightarrow> bytes \<Rightarrow> bytes list" where
  "split_chunks n bs =
     (if n = 0 \<or> length bs < n then [bs] else take n bs # split_chunks n (drop n bs))"

declare split_chunks.simps [simp del]

text \<open>
  Modelled from the spec: \<^verbatim>\<open>encryptChunks(fileKey, fileNonce, plaintext)\<close> of section
  4.4. Each chunk is encrypted under the nonce of its index, the last one is tagged final,
  and the hash of each ciphertext chunk is recorded in order.
\<close>

fun encrypt_from :: "'w primitives \<Rightarrow> bytes \<Rightarrow> bytes \<Rightarrow> nat \<Rightarrow> bytes list \<Rightarrow> chunk list" where
  "encrypt_from P k n i [] = []"
| "encrypt_from P k n i (p # ps) =
     \<lparr>final = (ps = []), ciphertext = secretbox P k (chunk_nonce P n i) p\<rparr>
       # encrypt_from P k n (Suc i) ps"

definition encryptChunks :: "'w primitives \<Rightarrow> bytes \<Rightarrow> bytes \<Rightarrow> bytes \<Rightarrow> chunk list \<times> bytes list" where
  "encryptChunks P k n plaintext =
     (let chunks = encrypt_from P k n 0 (split_chunks (chunk_size P) plaintext)
      in (chunks, map (\<lambda>c. digest P (ciphertext c)) chunks))"

text \<open>
  Modelled from the spec: \<^verbatim>\<open>decryptChunks(fileKey, fileNonce, chunks)\<close> of section 4.4,
  with the \<^verbatim>\<open>chunkHashes\<close> of the unwrapped \<^verbatim>\<open>FileInfo\<close>. The number and the hashes of
  the chunks must match; each chunk is verified, and the first that fails fails the whole:
  no plaintext is returned then.
\<close>

fun decrypt_from :: "'w primitives \<Rightarrow> bytes \<Rightarrow> bytes \<Rightarrow> nat \<Rightarrow> chunk list \<Rightarrow> error + bytes" where
  "decrypt_from P k n i [] = Inr []"
| "decrypt_from P k n i (c # cs) =
     (case secretbox_open P k (chunk_nonce P n i) (ciphertext c) of
        None \<Rightarrow> Inl AuthenticationFailure
      | Some p \<Rightarrow>
          (case decrypt_from P k n (Suc i) cs of
             Inl e \<Rightarrow> Inl e
           | Inr ps \<Rightarrow> Inr (p @ ps)))"

definition decryptChunks ::
  "'w primitives \<Rightarrow> bytes \<Rightarrow> bytes \<Rightarrow> bytes list \<Rightarrow> chunk list \<Rightarrow> error + bytes" where
  "decryptChunks P k n hashes chunks =
     (if map (\<lambda>c. digest P (ciphertext c)) chunks \<noteq> hashes then Inl AuthenticationFailure
      else decrypt_from P k n 0 chunks)"

text \<open>
  The fresh randomness of one call of \<^verbatim>\<open>seal\<close>: the file key, the file nonce and the
  secret key of the ephemeral pair.
\<close>

record fresh =
  freshFileKey :: bytes
  freshFileNonce :: bytes
  ephemeralSecretKey :: bytes

text \<open>
  Modelled from the spec: step 1 of \<^verbatim>\<open>seal\<close>, every recipient identifier is validated
  and an invalid one aborts with \<^verbatim>\<open>InvalidIdentifier\<close>.
\<close>

fun decode_all :: "'w primitives \<Rightarrow> string list \<Rightarrow> error + bytes list" where
  "decode_all P [] = Inr []"
| "decode_all P (i # is) =
     (case decode P i of
        Inl e \<Rightarrow> Inl InvalidIdentifier
      | Inr pk \<Rightarrow>
          (case decode_all P is of
             Inl e \<Rightarrow> Inl e
           | Inr pks \<Rightarrow> Inr (pk # pks)))"

text \<open>
  Modelled from the spec: \<^verbatim>\<open>seal(sender, recipients, fileName, plaintext)\<close> of section
  4.5, steps 1 to 6, the fresh randomness being an argument. The sender is always among
  those the file key is wrapped for.
\<close>

definition seal ::
  "'w primitives \<Rightarrow> fresh \<Rightarrow> Identity \<Rightarrow> string list \<Rightarrow> string \<Rightarrow> bytes \<Rightarrow> error + 'w Container" where
  "seal P R sender recipients name plaintext =
     (case decode_all P recipients of
        Inl e \<Rightarrow> Inl e
      | Inr pks \<Rightarrow>
          (case encryptChunks P (freshFileKey R) (freshFileNonce R) plaintext of
             (chunks, hashes) \<Rightarrow>
               (let fileInfo = \<lparr>fileKey = freshFileKey R, fileNonce = freshFileNonce R,
                                 fileName = name, senderPublicKey = publicKey sender,
                                 chunkHashes = hashes\<rparr>
                in Inr \<lparr>version = 1,
                        ephemeralPublicKey = keypair P (ephemeralSecretKey R),
                        entries = map (\<lambda>pk. wrap P (ephemeralSecretKey R) pk fileInfo)
                                      (publicKey sender # pks),
                        body = chunks\<rparr>)))"

text \<open>
  Modelled from the spec: \<^verbatim>\<open>open(recipient, container)\<close> of section 4.5, steps 1 to 4,
  on a container already read into its fields. A version other than 1 is
  \<^verbatim>\<open>UnsupportedVersion\<close>; a body that does not end with a chunk tagged final is
  \<^verbatim>\<open>TruncatedContainer\<close>.
\<close>

definition open_container ::
  "'w primitives \<Rightarrow> Identity \<Rightarrow> 'w Container \<Rightarrow> error + string \<times> bytes" where
  "open_container P r c =
     (if version c \<noteq> 1 then Inl UnsupportedVersion
      else if body c = [] \<or> \<not> final (last (body c)) then Inl TruncatedContainer
      else
        (case unwrap P (secretKey r) (ephemeralPublicKey c) (entries c) of
           Inl e \<Rightarrow> Inl e
         | Inr fileInfo \<Rightarrow>
             (case decryptChunks P (fileKey fileInfo) (fileNonce fileInfo)
                     (chunkHashes fileInfo) (body c) of
                Inl e \<Rightarrow> Inl e
              | Inr plaintext \<Rightarrow> Inr (fileName fileInfo, plaintext))))"

text \<open>
  What the specification leaves open between the container and \<^verbatim>\<open>core.py\<close>: how an
  identity is derived, what \<^verbatim>\<open>assert_type_and_length\<close> accepts, the byte layout of a
  container (section 6 fixes neither the magic bytes nor the encoding of the header), how
  the fresh randomness of the \<open>i\<close>-th call is drawn, and base 64.
\<close>

record 'w binding =
  derive :: "string \<Rightarrow> string \<Rightarrow> Identity"
  accepts :: "string \<Rightarrow> Identity pyobj \<Rightarrow> pytype list \<Rightarrow> error option"
  serialize :: "'w Container \<Rightarrow> bytes"
  parse :: "bytes \<Rightarrow> error + 'w Container"
  draw :: "nat \<Rightarrow> fresh"
  to_base64 :: "bytes \<Rightarrow> bytes"
  from_base64 :: "bytes \<Rightarrow> error + bytes"

text \<open>
  The identifier of a recipient as \<^verbatim>\<open>core.py\<close> passes it: a string is the identifier
  itself, a \<^verbatim>\<open>UserLock\<close> stands for its own.
\<close>

fun identifier_of :: "Identity pyobj \<Rightarrow> string" where
  "identifier_of (PyStr s) = s"
| "identifier_of (PyUserLock k) = ident k"
| "identifier_of PyOther = []"

text \<open>
  Modelled from the spec: the module \<^verbatim>\<open>crypto\<close> as \<^verbatim>\<open>core.py\<close> calls it.
  \<^verbatim>\<open>MiniLockFile.new(...).contents\<close> are the bytes of the sealed container,
  \<^verbatim>\<open>MiniLockFile(contents)\<close> reads them back, and \<^verbatim>\<open>decrypt(recipient_key)\<close> opens the
  container.
\<close>

definition spec_crypto :: "'w primitives \<Rightarrow> 'w binding \<Rightarrow> (Identity, 'w Container) crypto" where
  "spec_crypto P B =
     \<lparr>from_passphrase = derive B,
      userID = ident,
      assert_type_and_length = accepts B,
      MiniLockFile_new = (\<lambda>i filename contents sender recipients.
         case sender of
           PyUserLock s \<Rightarrow>
             (case seal P (draw B i) s (map identifier_of recipients) filename contents of
                Inl e \<Rightarrow> Inl e
              | Inr c \<Rightarrow> Inr (serialize B c))
         | _ \<Rightarrow> Inl TypeError),
      MiniLockFile = parse B,
      decrypt = (\<lambda>c recipient_key.
         case recipient_key of
           PyUserLock r \<Rightarrow> open_container P r c
         | _ \<Rightarrow> Inl TypeError),
      b64encode = to_base64 B,
      b64decode = from_base64 B\<rparr>"


section \<open>Concrete collaborators for running the model\<close>

text \<open>
  An estimator that gives ten bits per character, a generator whose \<open>i\<close>-th phrase is
  \<open>n + i\<close> letters long, and a \<^verbatim>\<open>crypto\<close> whose locks are the pair of email and
  passphrase and whose container is the file name, a zero byte and the plaintext.
\<close>

definition ex_passwords :: passwords where
  "ex_passwords =
     \<lparr>password_strength =
        (\<lambda>pp hints. \<lparr>entropy = real (10 * length pp), crack_time_display = ''instant''\<rparr>),
      generate_phrase = (\<lambda>n i. replicate (n + i) CHR ''a'')\<rparr>"

definition ex_assert :: "string \<Rightarrow> (string \<times> string) pyobj \<Rightarrow> pytype list \<Rightarrow> error option" where
  "ex_assert name v ts =
     (case v of
        PyStr s \<Rightarrow> if T_str \<in> set ts then None else Some TypeError
      | PyUserLock k \<Rightarrow> if T_UserLock \<in> set ts then None else Some TypeError
      | PyOther \<Rightarrow> Some TypeError)"

definition ex_parse :: "bytes \<Rightarrow> error + string \<times> bytes" where
  "ex_parse bs =
     (if 0 \<in> set bs
      then Inr (map (\<lambda>b. char_of (unat b)) (takeWhile (\<lambda>b. b \<noteq> 0) bs),
                tl (dropWhile (\<lambda>b. b \<noteq> 0) bs))
      else Inl TruncatedContainer)"

definition ex_crypto :: "(string \<times> string, string \<times> bytes) crypto" where
  "ex_crypto =
     \<lparr>from_passphrase = (\<lambda>email passphrase. (email, passphrase)),
      userID = fst,
      assert_type_and_length = ex_assert,
      MiniLockFile_new = (\<lambda>i filename contents sender recipients.
         Inr (map (\<lambda>c. of_nat (of_char c)) filename @ [0] @ contents)),
      MiniLockFile = ex_parse,
      decrypt = (\<lambda>c k. case k of PyUserLock l \<Rightarrow> Inr c | _ \<Rightarrow> Inl NoMatchingRecipient),
      b64encode = (\<lambda>bs. bs),
      b64decode = Inr\<rparr>"

definition ex_stdlib :: stdlib where
  "ex_stdlib =
     \<lparr>zip_tree = (\<lambda>fs p. Inr []), urandom = (\<lambda>k i. replicate k (of_nat (171 + i)))\<rparr>"

definition ex_world :: world where
  "ex_world =
     \<lparr>files = [''/a/hi.txt'' \<mapsto> File [104, 101, 108, 108, 111]],
      settings = default_Settings,
      typed = [''alice@example.com'', ''abc'', ''0123456789''],
      rand = 0\<rparr>"


text \<open>
  Primitives for running the container of the specification: the public key of a secret key
  is its reverse, a box keeps the ephemeral public key and the recipient's public key beside
  the \<^verbatim>\<open>FileInfo\<close> and opens for them alone, a chunk is encrypted by writing key and nonce
  before it. The byte layout is that of a codec that knows one container, the one that
  \<open>ex_identity\<close> seals of \<^verbatim>\<open>/a/hi.txt\<close> in \<open>ex_world\<close> for \<^verbatim>\<open>bob\<close>.
\<close>

definition ex_primitives :: "(bytes \<times> bytes \<times> FileInfo) primitives" where
  "ex_primitives =
     \<lparr>keypair = rev,
      box = (\<lambda>e pk fileInfo. (rev e, pk, fileInfo)),
      box_open = (\<lambda>r epk w. case w of (a, b, fileInfo) \<Rightarrow>
                    if a = epk \<and> b = rev r then Some fileInfo else None),
      keyed_hash = (\<lambda>pk. 7 # pk),
      secretbox = (\<lambda>k n m. k @ n @ m),
      secretbox_open = (\<lambda>k n c. if take (length (k @ n)) c = k @ n
                                  then Some (drop (length (k @ n)) c) else None),
      digest = (\<lambda>c. [of_nat (length c)]),
      chunk_nonce = (\<lambda>n i. n @ [of_nat i]),
      chunk_size = 2,
      decode = (\<lambda>s. if s = ''bob'' then Inr [2, 3] else Inl InvalidIdentifier)\<rparr>"

definition ex_identity :: Identity where
  "ex_identity = \<lparr>publicKey = [2, 1], secretKey = [1, 2], ident = ''alice''\<rparr>"

definition ex_bob :: Identity where
  "ex_bob = \<lparr>publicKey = [2, 3], secretKey = [3, 2], ident = ''bob''\<rparr>"

definition ex_draw :: "nat \<Rightarrow> fresh" where
  "ex_draw i = \<lparr>freshFileKey = [of_nat i, 9], freshFileNonce = [8], ephemeralSecretKey = [5, 6]\<rparr>"

definition ex_container :: "(bytes \<times> bytes \<times> FileInfo) Container" where
  "ex_container =
     (case seal ex_primitives (ex_draw 0) ex_identity [''bob''] ''hi.txt'' [104, 101, 108, 108, 111] of
        Inr c \<Rightarrow> c
      | Inl e \<Rightarrow> \<lparr>version = 0, ephemeralPublicKey = [], entries = [], body = []\<rparr>)"

definition ex_binding :: "(bytes \<times> bytes \<times> FileInfo) binding" where
  "ex_binding =
     \<lparr>derive = (\<lambda>email passphrase. ex_identity),
      accepts = (\<lambda>name v ts. case v of
                   PyStr s \<Rightarrow> if T_str \<in> set ts then None else Some TypeError
                 | PyUserLock k \<Rightarrow> if T_UserLock \<in> set ts then None else Some TypeError
                 | PyOther \<Rightarrow> Some TypeError),
      serialize = (\<lambda>c. [109, 105, 110, 105]),
      parse = (\<lambda>bs. if bs = [109, 105, 110, 105] then Inr ex_container else Inl TruncatedContainer),
      draw = ex_draw,
      to_base64 = (\<lambda>bs. bs),
      from_base64 = Inr\<rparr>"


section \<open>Properties of the passphrase gate\<close>


subsection \<open>The email split\<close>

lemma length_split_sep: "length (split_sep c s) = Suc (count_list s c)"
  by (induction s) auto

lemma split_email_fails:
  "count_list email CHR ''@'' \<noteq> 1 \<Longrightarrow> split_email email = Inl ValueError"
proof -
  assume "count_list email CHR ''@'' \<noteq> 1"
  then have "length (split_sep CHR ''@'' email) \<noteq> 2"
    by (simp add: length_split_sep)
  then have "unpack2 (split_sep CHR ''@'' email) = Inl ValueError"
    by (auto simp: unpack2_def split: list.splits)
  then show ?thesis by (simp add: split_email_def)
qed

text \<open>
  Claim C9. \<^verbatim>\<open>check_passphrase\<close> is a total function of two strings (given an
  estimator that returns): when the email does not have exactly one \<^verbatim>\<open>@\<close>, so that
  \<^verbatim>\<open>email.split("@")\<close> does not unpack into a user part and a domain part, the body of
  the \<^verbatim>\<open>try\<close> ends in \<^verbatim>\<open>ValueError\<close>, the \<^verbatim>\<open>except\<close> branch sets both hints to the
  whole email, and the function returns the verdict and the score computed with these
  hints.
\<close>

theorem check_passphrase_bad_email:
  "count_list email CHR ''@'' \<noteq> 1 \<Longrightarrow>
     split_email email = Inl ValueError \<and>
     user_inputs email = [email, email] \<and>
     check_passphrase W S pp email =
       (minKeyEntropy S \<le> entropy (password_strength W pp [email, email]),
        password_strength W pp [email, email])"
  by (simp add: split_email_fails user_inputs_def check_passphrase_def Let_def)

theorem check_passphrase_bad_email_witness:
  "count_list ''a@b@c'' CHR ''@'' \<noteq> 1 \<and>
   split_email ''a@b@c'' = Inl ValueError \<and>
   user_inputs ''a@b@c'' = [''a@b@c'', ''a@b@c''] \<and>
   check_passphrase ex_passwords default_Settings ''xyz'' ''a@b@c'' =
     (False, \<lparr>entropy = 30, crack_time_display = ''instant''\<rparr>)"
  using check_passphrase_bad_email [of "''a@b@c''" ex_passwords default_Settings "''xyz''"]
  by (simp add: ex_passwords_def default_Settings_def)

subsection \<open>The threshold\<close>

text \<open>
  Claim C6. The gate has one threshold that decides, \<^verbatim>\<open>Settings.minKeyEntropy\<close>, 100 by
  default: for every passphrase and email \<^verbatim>\<open>check_passphrase\<close> returns \<open>True\<close> exactly
  when the entropy the estimator gives is at least that value, and it returns the
  estimator's score with the verdict. Setting the threshold to \<open>t\<close> makes \<open>t\<close> the bound
  that decides, so changing it changes which passphrases pass. The other attribute of
  \<^verbatim>\<open>Settings\<close>, \<^verbatim>\<open>minPassphraseEntropy\<close> (also 100 by default), is not read by the
  gate: changing it changes no result.
\<close>

theorem check_passphrase_threshold:
  "fst (check_passphrase W S pp email) =
     (minKeyEntropy S \<le> entropy (password_strength W pp (user_inputs email))) \<and>
   snd (check_passphrase W S pp email) = password_strength W pp (user_inputs email) \<and>
   fst (check_passphrase W (S\<lparr>minKeyEntropy := t\<rparr>) pp email) =
     (t \<le> entropy (password_strength W pp (user_inputs email))) \<and>
   check_passphrase W (S\<lparr>minPassphraseEntropy := t\<rparr>) pp email = check_passphrase W S pp email \<and>
   minKeyEntropy default_Settings = 100 \<and>
   minPassphraseEntropy default_Settings = 100"
  by (simp add: check_passphrase_def Let_def default_Settings_def)

subsection \<open>The phrase generator loop\<close>

lemma make_random_phrase_sound:
  assumes "make_random_phrase W S email n = Some r"
  shows "fst (check_passphrase W S (fst r) email) \<and> n < snd r \<and>
         fst r = generate_phrase W 7 (snd r - 1)"
  by (rule make_random_phrase.raw_induct
        [where P = "\<lambda>W S email n r. fst (check_passphrase W S (fst r) email) \<and> n < snd r \<and>
                      fst r = generate_phrase W 7 (snd r - 1)", OF _ assms])
     (fastforce simp: Let_def split: if_splits dest: Suc_lessD)

text \<open>The loop returns as soon as some later draw passes, and only then.\<close>

lemma make_random_phrase_returns:
  "fst (check_passphrase W S (generate_phrase W 7 (n + k)) email) \<Longrightarrow>
     \<exists>r. make_random_phrase W S email n = Some r"
proof (induction k arbitrary: n)
  case 0
  then show ?case by (subst make_random_phrase.simps) (simp add: Let_def)
next
  case (Suc k)
  from Suc.prems have "fst (check_passphrase W S (generate_phrase W 7 (Suc n + k)) email)" by simp
  from Suc.IH[OF this] obtain r where "make_random_phrase W S email (Suc n) = Some r" ..
  then show ?case by (subst make_random_phrase.simps) (simp add: Let_def)
qed

lemma make_random_phrase_diverges:
  assumes "\<forall>i\<ge>n. \<not> fst (check_passphrase W S (generate_phrase W 7 i) email)"
  shows "make_random_phrase W S email n = None"
proof (rule ccontr)
  assume "make_random_phrase W S email n \<noteq> None"
  then obtain r where r: "make_random_phrase W S email n = Some r" by auto
  from make_random_phrase_sound[OF r] assms show False
    by (metis Suc_pred' less_Suc_eq_le less_nat_zero_code not_gr_zero)
qed

text \<open>
  Claim C10. Whatever \<^verbatim>\<open>make_random_phrase(email)\<close> returns passes
  \<^verbatim>\<open>check_passphrase\<close> for that email: its entropy is at least the threshold the gate
  reads. The phrase returned is the last one drawn. The loop has no other way out.
\<close>

theorem make_random_phrase_passes:
  "make_random_phrase W S email n = Some (p, n') \<Longrightarrow>
     fst (check_passphrase W S p email) \<and>
     minKeyEntropy S \<le> entropy (password_strength W p (user_inputs email)) \<and>
     n < n' \<and> p = generate_phrase W 7 (n' - 1)"
  using make_random_phrase_sound [of W S email n "(p, n')"]
  by (simp add: check_passphrase_def Let_def split: if_splits)

theorem make_random_phrase_passes_witness:
  "make_random_phrase ex_passwords default_Settings ''alice@example.com'' 0
     = Some (''aaaaaaaaaa'', 4) \<and>
   fst (check_passphrase ex_passwords default_Settings ''aaaaaaaaaa'' ''alice@example.com'')"
proof -
  have run: "make_random_phrase ex_passwords default_Settings ''alice@example.com'' 0
     = Some (''aaaaaaaaaa'', 4)"
    by code_simp
  from make_random_phrase_passes [OF run] run show ?thesis by blast
qed


section \<open>Properties of make_lock_securely\<close>

lemma loop_returned:
  "make_lock_securely_loop W S email lines n = (Returned pp, rest, n', evs) \<Longrightarrow>
     fst (check_passphrase W S pp email) \<and> pp \<in> set lines \<and> (\<exists>pre. evs = pre @ [Typed pp])"
proof (induction lines arbitrary: n evs)
  case Nil
  then show ?case by simp
next
  case (Cons a lines)
  show ?case
  proof (cases "fst (check_passphrase W S a email)")
    case True
    with Cons.prems show ?thesis by (auto split: prod.splits)
  next
    case False
    with Cons.prems obtain p m evs' where
      "make_lock_securely_loop W S email lines m = (Returned pp, rest, n', evs')"
      "evs = Typed a # Printed_insufficient (snd (check_passphrase W S a email)) # Printed_suggestion p # evs'"
      by (auto split: prod.splits option.splits)
    with Cons.IH[OF this(1)] show ?thesis by auto
  qed
qed

lemma third_or_later:
  "pre @ x # post = a # b # c # ys \<Longrightarrow> x \<noteq> a \<Longrightarrow> x \<noteq> b \<Longrightarrow>
     (pre = [a, b] \<and> x = c \<and> post = ys) \<or> (\<exists>pre2. pre = a # b # c # pre2 \<and> ys = pre2 @ x # post)"
  by (auto simp: append_eq_Cons_conv)

lemma loop_suggestion:
  "make_lock_securely_loop W S email lines n = (r, rest, n', evs) \<Longrightarrow>
   evs = pre @ Printed_suggestion s # post \<Longrightarrow>
     (\<exists>pre' pp. pre = pre' @ [Typed pp, Printed_insufficient (snd (check_passphrase W S pp email))]
        \<and> pp \<in> set lines \<and> \<not> fst (check_passphrase W S pp email))"
proof (induction lines arbitrary: n evs pre)
  case Nil
  then show ?case by simp
next
  case (Cons a lines)
  show ?case
  proof (cases "fst (check_passphrase W S a email)")
    case True
    with Cons.prems show ?thesis by (auto split: prod.splits simp: Cons_eq_append_conv)
  next
    case False
    show ?thesis
    proof (cases "make_random_phrase W S email n")
      case None
      with False Cons.prems show ?thesis by (auto split: prod.splits simp: Cons_eq_append_conv)
    next
      case (Some pm)
      with False Cons.prems obtain evs' where
        l: "make_lock_securely_loop W S email lines (snd pm) = (r, rest, n', evs')" and
        e: "evs = Typed a # Printed_insufficient (snd (check_passphrase W S a email)) # Printed_suggestion (fst pm) # evs'"
        by (auto split: prod.splits)
      from e Cons.prems(2) consider
        "pre = [Typed a, Printed_insufficient (snd (check_passphrase W S a email))]"
        | pre2 where "pre = Typed a # Printed_insufficient (snd (check_passphrase W S a email)) # Printed_suggestion (fst pm) # pre2"
           "evs' = pre2 @ Printed_suggestion s # post"
        using third_or_later[of pre "Printed_suggestion s" post "Typed a" _ "Printed_suggestion (fst pm)" evs']
        by auto
      then show ?thesis
      proof cases
        case 1
        with False show ?thesis by auto
      next
        case 2
        from Cons.IH[OF l 2(2)] 2(1) show ?thesis by auto
      qed
    qed
  qed
qed

lemma loop_no_derived:
  "make_lock_securely_loop W S email lines n = (r, rest, n', evs) \<Longrightarrow> Derived e p \<notin> set evs"
  by (induction lines arbitrary: n evs) (auto split: prod.splits option.splits if_splits)

lemma make_lock_securely_cases:
  fixes C :: "('k, 'c) crypto"
  assumes "make_lock_securely W C w = (r, w', evs)" and "typed w = email # lines"
  obtains (returned) pp rest n evs0 where
      "make_lock_securely_loop W (settings w) email lines (rand w) = (Returned pp, rest, n, evs0)"
      "r = Returned (from_passphrase C email pp)" "evs = Typed email # evs0 @ [Derived email pp]"
      "w' = w\<lparr>typed := rest, rand := n\<rparr>"
  | (other) lr rest n evs0 where
      "make_lock_securely_loop W (settings w) email lines (rand w) = (lr, rest, n, evs0)"
      "\<forall>pp. lr \<noteq> Returned pp" "\<forall>k. r \<noteq> Returned k" "evs = Typed email # evs0"
      "w' = w\<lparr>typed := rest, rand := n\<rparr>"
proof -
  obtain lr rest n and evs0 :: "'k event list" where
    l: "make_lock_securely_loop W (settings w) email lines (rand w) = (lr, rest, n, evs0)"
    by (cases "make_lock_securely_loop W (settings w) email lines (rand w)
                 :: string outcome \<times> string list \<times> nat \<times> 'k event list") auto
  show thesis
  proof (cases lr)
    case (Returned pp)
    with l assms show thesis
      by (intro returned[of pp rest n evs0]) (auto simp: make_lock_securely_def)
  next
    case (Raised e)
    with l assms show thesis
      by (intro other[of lr rest n evs0]) (auto simp: make_lock_securely_def)
  next
    case Diverged
    with l assms show thesis
      by (intro other[of lr rest n evs0]) (auto simp: make_lock_securely_def)
  qed
qed

text \<open>
  Claim C2. In a run of \<^verbatim>\<open>make_lock_securely\<close>, whenever
  \<^verbatim>\<open>crypto.UserLock.from_passphrase(e, pp)\<close> is called, \<open>pp\<close> passes
  \<^verbatim>\<open>check_passphrase\<close> for \<open>e\<close>: its entropy is at least the threshold of the gate,
  so with the threshold at 100 it is not below 100 bits. \<open>e\<close> is the email entered and
  \<open>pp\<close> is one of the lines typed after it. The statement covers runs that return,
  runs that end in an exception and runs that hang in the suggestion loop.
\<close>

theorem gate_before_derive:
  assumes "make_lock_securely W C w = (r, w', evs)" and "Derived e pp \<in> set evs"
  shows "fst (check_passphrase W (settings w) pp e) \<and>
         minKeyEntropy (settings w) \<le> entropy (password_strength W pp (user_inputs e)) \<and>
         (minKeyEntropy (settings w) = 100 \<longrightarrow>
            \<not> entropy (password_strength W pp (user_inputs e)) < 100) \<and>
         (\<exists>lines. typed w = e # lines \<and> pp \<in> set lines)"
proof (cases "typed w")
  case Nil
  with assms show ?thesis by (simp add: make_lock_securely_def)
next
  case (Cons email lines)
  from assms(1) Cons show ?thesis
  proof (cases rule: make_lock_securely_cases)
    case (returned p rest n evs0)
    from loop_no_derived[OF returned(1)] assms(2) returned(3) have "e = email" "pp = p" by auto
    with loop_returned[OF returned(1)] Cons show ?thesis
      by (auto simp: check_passphrase_def Let_def split: if_splits)
  next
    case (other lr rest n evs0)
    with loop_no_derived[OF other(1)] assms(2) show ?thesis by auto
  qed
qed

text \<open>
  Claim C7. In a run of \<^verbatim>\<open>make_lock_securely\<close>, a suggestion is printed only right
  after the verdict on a typed passphrase that failed the gate; a returned key is
  \<^verbatim>\<open>from_passphrase\<close> of the email and of a line the user typed, and the call that
  derives it follows that line directly: no generated phrase is ever handed to
  \<^verbatim>\<open>from_passphrase\<close> unless the user typed it.
\<close>

theorem suggestion_only_after_failure:
  assumes "make_lock_securely W C w = (r, w', evs)" and "typed w = email # lines"
  shows "(\<forall>pre s post. evs = pre @ Printed_suggestion s # post \<longrightarrow>
            (\<exists>pre' pp. pre = pre' @ [Typed pp,
                 Printed_insufficient (snd (check_passphrase W (settings w) pp email))] \<and>
               pp \<in> set lines \<and> \<not> fst (check_passphrase W (settings w) pp email))) \<and>
         (\<forall>k. r = Returned k \<longrightarrow>
            (\<exists>pre pp. k = from_passphrase C email pp \<and> pp \<in> set lines \<and>
               evs = pre @ [Typed pp, Derived email pp])) \<and>
         (\<forall>e pp. Derived e pp \<in> set evs \<longrightarrow>
            (\<exists>pre. e = email \<and> pp \<in> set lines \<and> evs = pre @ [Typed pp, Derived e pp]))"
  using assms
proof (cases rule: make_lock_securely_cases)
  case (returned p rest n evs0)
  from loop_returned[OF returned(1)] obtain pre0 where
    p: "p \<in> set lines" and ev0: "evs0 = pre0 @ [Typed p]" by auto
  have evs: "evs = (Typed email # pre0) @ [Typed p, Derived email p]"
    using returned(3) ev0 by simp
  have A: "\<exists>pre' pp. pre = pre' @ [Typed pp,
                 Printed_insufficient (snd (check_passphrase W (settings w) pp email))] \<and>
               pp \<in> set lines \<and> \<not> fst (check_passphrase W (settings w) pp email)"
    if "evs = pre @ Printed_suggestion s # post" for pre s post
  proof -
    from that returned(3) obtain pre1 post1 where
      "pre = Typed email # pre1" "evs0 = pre1 @ Printed_suggestion s # post1"
      by (cases pre) (auto simp: append_eq_append_conv2 append_eq_Cons_conv Cons_eq_append_conv)
    from loop_suggestion[OF returned(1) this(2)] this(1) show ?thesis by auto
  qed
  have B: "Derived e pp \<in> set evs \<Longrightarrow> e = email \<and> pp = p" for e pp
    using loop_no_derived[OF returned(1)] returned(3) by auto
  show ?thesis using A B evs p returned(2) by blast
next
  case (other lr rest n evs0)
  have A: "\<exists>pre' pp. pre = pre' @ [Typed pp,
                 Printed_insufficient (snd (check_passphrase W (settings w) pp email))] \<and>
               pp \<in> set lines \<and> \<not> fst (check_passphrase W (settings w) pp email)"
    if "evs = pre @ Printed_suggestion s # post" for pre s post
  proof -
    from that other(4) obtain pre1 where
      "pre = Typed email # pre1" "evs0 = pre1 @ Printed_suggestion s # post"
      by (cases pre) auto
    from loop_suggestion[OF other(1) this(2)] this(1) show ?thesis by auto
  qed
  have B: "Derived e pp \<notin> set evs" for e pp
    using loop_no_derived[OF other(1)] other(4) by auto
  show ?thesis using A B other(3) by blast
qed


theorem gate_before_derive_witness:
  "Derived ''alice@example.com'' ''0123456789''
     \<in> set (snd (snd (make_lock_securely ex_passwords ex_crypto ex_world))) \<and>
   fst (check_passphrase ex_passwords (settings ex_world) ''0123456789'' ''alice@example.com'') \<and>
   minKeyEntropy (settings ex_world) = 100"
proof -
  let ?X = "make_lock_securely ex_passwords ex_crypto ex_world"
  have run: "snd (snd ?X) =
     [Typed ''alice@example.com'', Typed ''abc'',
      Printed_insufficient \<lparr>entropy = 30, crack_time_display = ''instant''\<rparr>,
      Printed_suggestion ''aaaaaaaaaa'', Typed ''0123456789'',
      Derived ''alice@example.com'' ''0123456789'']"
    by code_simp
  have eq: "?X = (fst ?X, fst (snd ?X), snd (snd ?X))" by simp
  have mem: "Derived ''alice@example.com'' ''0123456789'' \<in> set (snd (snd ?X))"
    by (simp add: run)
  have "minKeyEntropy (settings ex_world) = 100"
    by (simp add: ex_world_def default_Settings_def)
  with gate_before_derive [OF eq mem] mem show ?thesis by blast
qed

theorem suggestion_only_after_failure_witness:
  "typed ex_world = ''alice@example.com'' # [''abc'', ''0123456789''] \<and>
   snd (snd (make_lock_securely ex_passwords ex_crypto ex_world)) =
     [Typed ''alice@example.com'', Typed ''abc'',
      Printed_insufficient \<lparr>entropy = 30, crack_time_display = ''instant''\<rparr>]
     @ Printed_suggestion ''aaaaaaaaaa''
     # [Typed ''0123456789'', Derived ''alice@example.com'' ''0123456789''] \<and>
   fst (make_lock_securely ex_passwords ex_crypto ex_world)
     = Returned (''alice@example.com'', ''0123456789'') \<and>
   \<not> fst (check_passphrase ex_passwords (settings ex_world) ''abc'' ''alice@example.com'')"
proof -
  let ?X = "make_lock_securely ex_passwords ex_crypto ex_world"
  have ty: "typed ex_world = ''alice@example.com'' # [''abc'', ''0123456789'']"
    by (simp add: ex_world_def)
  have run: "snd (snd ?X) =
     [Typed ''alice@example.com'', Typed ''abc'',
      Printed_insufficient \<lparr>entropy = 30, crack_time_display = ''instant''\<rparr>]
     @ Printed_suggestion ''aaaaaaaaaa''
     # [Typed ''0123456789'', Derived ''alice@example.com'' ''0123456789'']"
    by code_simp
  have ret: "fst ?X = Returned (''alice@example.com'', ''0123456789'')"
    by code_simp
  have eq: "?X = (fst ?X, fst (snd ?X), snd (snd ?X))" by simp
  have "\<exists>(pre' :: (string \<times> string) event list) pp.
     [Typed ''alice@example.com'', Typed ''abc'',
      Printed_insufficient \<lparr>entropy = 30, crack_time_display = ''instant''\<rparr>]
     = pre' @ [Typed pp, Printed_insufficient
         (snd (check_passphrase ex_passwords (settings ex_world) pp ''alice@example.com''))] \<and>
     pp \<in> set [''abc'', ''0123456789''] \<and>
     \<not> fst (check_passphrase ex_passwords (settings ex_world) pp ''alice@example.com'')"
    using suggestion_only_after_failure [OF eq ty, THEN conjunct1, rule_format, OF run] .
  then obtain pre' :: "(string \<times> string) event list" and pp where
    "[Typed ''alice@example.com'', Typed ''abc'',
      Printed_insufficient \<lparr>entropy = 30, crack_time_display = ''instant''\<rparr>]
     = pre' @ [Typed pp, Printed_insufficient
         (snd (check_passphrase ex_passwords (settings ex_world) pp ''alice@example.com''))]"
    "\<not> fst (check_passphrase ex_passwords (settings ex_world) pp ''alice@example.com'')"
    by blast
  then have "\<not> fst (check_passphrase ex_passwords (settings ex_world) ''abc'' ''alice@example.com'')"
    by (cases pre'; cases "tl pre'") auto
  with ty run ret show ?thesis by blast
qed


section \<open>Properties of encrypt_file and decrypt_file\<close>



lemma assert_recipients_valid:
  "\<forall>k\<in>set rs. assert_type_and_length C ''recipient_key'' k [T_str, T_UserLock] = None \<Longrightarrow>
     assert_recipients C rs = (None, map (\<lambda>k. Asserted ''recipient_key'' k [T_str, T_UserLock]) rs)"
  by (induction rs) auto







section \<open>Properties of main_encrypt\<close>

lemma assert_recipients_events:
  "assert_recipients C rs = (a, evs) \<Longrightarrow>
     \<forall>ev\<in>set evs. \<exists>k. ev = Asserted ''recipient_key'' k [T_str, T_UserLock]"
  by (induction rs arbitrary: evs) (auto split: option.splits prod.splits)

lemma encrypt_file_sealed:
  assumes "encrypt_file C w file_path sender recipients = (r, w', evs)"
  shows "(\<forall>i f c s rs. Sealed i f c s rs \<in> set evs \<longrightarrow>
            s = sender \<and> rs = recipients \<and> r = MiniLockFile_new C i f c sender recipients) \<and>
         (\<forall>crypted. r = Inr crypted \<longrightarrow>
            (\<exists>i f c. Sealed i f c sender recipients \<in> set evs)) \<and>
         (\<forall>p d. File_written p d \<notin> set evs)"
proof (cases "assert_recipients C recipients")
  case (Pair a evs0)
  from assert_recipients_events[OF Pair] have
    "\<forall>i f c s rs. Sealed i f c s rs \<notin> set evs0" "\<forall>p d. File_written p d \<notin> set evs0"
    by auto
  with Pair assms show ?thesis
    by (auto simp: encrypt_file_def Let_def split: option.splits sum.splits if_splits)
qed

lemma encrypt_folder_sealed:
  assumes "encrypt_folder C Y w file_path sender recipients = (r, w', evs)"
  shows "(\<forall>i f c s rs. Sealed i f c s rs \<in> set evs \<longrightarrow>
            s = sender \<and> rs = recipients \<and> r = MiniLockFile_new C i f c sender recipients) \<and>
         (\<forall>crypted. r = Inr crypted \<longrightarrow>
            (\<exists>i f c. Sealed i f c sender recipients \<in> set evs)) \<and>
         (\<forall>p d. File_written p d \<notin> set evs)"
proof (cases "assert_recipients C recipients")
  case (Pair a evs0)
  from assert_recipients_events[OF Pair] have
    "\<forall>i f c s rs. Sealed i f c s rs \<notin> set evs0" "\<forall>p d. File_written p d \<notin> set evs0"
    by auto
  with Pair assms show ?thesis
    by (auto simp: encrypt_folder_def Let_def split: option.splits sum.splits if_splits)
qed

lemma loop_events:
  "make_lock_securely_loop W S email lines n = (r, rest, n', evs) \<Longrightarrow>
     (\<forall>i f c s rs. Sealed i f c s rs \<notin> set evs) \<and> (\<forall>p d. File_written p d \<notin> set evs)"
  by (induction lines arbitrary: n evs) (auto split: prod.splits option.splits if_splits)

lemma make_lock_securely_events:
  fixes C :: "('k, 'c) crypto"
  assumes "make_lock_securely W C w = (r, w', evs)"
  shows "(\<forall>i f c s rs. Sealed i f c s rs \<notin> set evs) \<and> (\<forall>p d. File_written p d \<notin> set evs)"
proof (cases "typed w")
  case Nil
  with assms show ?thesis by (simp add: make_lock_securely_def)
next
  case (Cons email lines)
  from assms Cons show ?thesis
  proof (cases rule: make_lock_securely_cases)
    case (returned pp rest n evs0)
    from loop_events[OF returned(1)] returned(3) show ?thesis by auto
  next
    case (other lr rest n evs0)
    from loop_events[OF other(1)] other(4) show ?thesis by auto
  qed
qed

lemma main_encrypt_events:
  fixes C :: "('k, 'c) crypto"
  assumes run: "main_encrypt W C Y w A = (r, w', evs)"
    and m: "make_lock_securely W C w = (Returned userKey, w1, evs0)"
  shows "\<exists>r2 evs2 tl.
           evs = evs0 @ Printed_user_id (userID C userKey) # evs2 @ tl \<and>
           (\<forall>i f c s rs. Sealed i f c s rs \<in> set evs2 \<longrightarrow>
              s = PyUserLock userKey \<and> rs = PyUserLock userKey # map PyStr (recipient A) \<and>
              r2 = MiniLockFile_new C i f c s rs) \<and>
           (\<forall>crypted. r2 = Inr crypted \<longrightarrow> (\<exists>i f c. Sealed i f c (PyUserLock userKey)
               (PyUserLock userKey # map PyStr (recipient A)) \<in> set evs2)) \<and>
           (\<forall>p d. File_written p d \<notin> set evs2) \<and>
           (\<forall>i f c s rs. Sealed i f c s rs \<notin> set tl) \<and>
           (\<forall>p d. File_written p d \<in> set tl \<longrightarrow>
              (\<exists>crypted. r2 = Inr crypted \<and>
                 d = (if base64 A then b64encode C crypted else crypted)))"
proof -
  let ?s = "PyUserLock userKey" and ?rs = "PyUserLock userKey # map PyStr (recipient A)"
  let ?pu = "Printed_user_id (userID C userKey) :: 'k event"
  show ?thesis
  proof (cases "path_exists (files w1) (path A)")
    case False
    with run m have "evs = evs0 @ ?pu # [] @
        [Printed_error (''File or directory '' @ path A @ '' does not exist.'')]"
      by (simp add: main_encrypt_def Let_def)
    then show ?thesis
      apply -
      apply (rule exI[where x = "Inl (SystemExit 1)"])
      apply (rule exI[where x = "[]"])
      apply (rule exI[where x = "[Printed_error (''File or directory '' @ path A @ '' does not exist.'')]"])
      apply simp
      done
  next
    case ex: True
    define step where "step =
      (if path_isfile (files w1) (path A) then encrypt_file C w1 (path A) ?s ?rs
       else if path_isdir (files w1) (path A) then encrypt_folder C Y w1 (path A) ?s ?rs
       else (Inl (SystemExit 1), w1,
             [Printed_error (''Specified path '' @ path A @ '' is neither a file nor a folder.'')]))"
    obtain r2 w2 evs2 where st: "step = (r2, w2, evs2)" by (cases step) auto
    have sp: "(\<forall>i f c s rs. Sealed i f c s rs \<in> set evs2 \<longrightarrow>
              s = ?s \<and> rs = ?rs \<and> r2 = MiniLockFile_new C i f c s rs) \<and>
           (\<forall>crypted. r2 = Inr crypted \<longrightarrow> (\<exists>i f c. Sealed i f c ?s ?rs \<in> set evs2)) \<and>
           (\<forall>p d. File_written p d \<notin> set evs2)"
    proof (cases "path_isfile (files w1) (path A)")
      case True
      with st have "encrypt_file C w1 (path A) ?s ?rs = (r2, w2, evs2)" by (simp add: step_def)
      from encrypt_file_sealed[OF this] show ?thesis by blast
    next
      case nf: False
      show ?thesis
      proof (cases "path_isdir (files w1) (path A)")
        case True
        with nf st have "encrypt_folder C Y w1 (path A) ?s ?rs = (r2, w2, evs2)"
          by (simp add: step_def)
        from encrypt_folder_sealed[OF this] show ?thesis by blast
      next
        case False
        with nf st have "r2 = Inl (SystemExit 1)" "evs2 =
          [Printed_error (''Specified path '' @ path A @ '' is neither a file nor a folder.'')]"
          by (simp_all add: step_def)
        then show ?thesis by simp
      qed
    qed
    have unf: "main_encrypt W C Y w A =
      (case step of
         (Inl e, w2, evs2) \<Rightarrow> (Raised e, w2, (evs0 @ [?pu]) @ evs2)
       | (Inr crypted, w2, evs2) \<Rightarrow>
           (let crypted' = (if base64 A then b64encode C crypted else crypted);
                out = (if output_file A = []
                       then hex (int_from_bytes_big (urandom Y 6 (rand w2))) @ ''.minilock''
                       else output_file A);
                w3 = (if output_file A = [] then w2\<lparr>rand := Suc (rand w2)\<rparr> else w2)
            in case open_wb (files w3) out crypted' of
                 Inl e \<Rightarrow> (Raised e, w3, (evs0 @ [?pu]) @ evs2 @ [Printed_saving out])
               | Inr fs \<Rightarrow>
                   (Returned (), w3\<lparr>files := fs\<rparr>,
                    (evs0 @ [?pu]) @ evs2 @ [Printed_saving out, File_written out crypted'])))"
      using m ex by (simp add: main_encrypt_def Let_def step_def)
    show ?thesis
    proof (cases r2)
      case (Inl e)
      with unf st run have "evs = evs0 @ ?pu # evs2 @ []" by simp
      with sp Inl show ?thesis
        apply -
        apply (rule exI[where x = r2])
        apply (rule exI[where x = evs2])
        apply (rule exI[where x = "[]"])
        apply (simp; blast)
        done
    next
      case (Inr crypted)
      define out where "out = (if output_file A = []
                       then hex (int_from_bytes_big (urandom Y 6 (rand w2))) @ ''.minilock''
                       else output_file A)"
      define d where "d = (if base64 A then b64encode C crypted else crypted)"
      define w3 where "w3 = (if output_file A = [] then w2\<lparr>rand := Suc (rand w2)\<rparr> else w2)"
      from unf st run Inr have res: "(r, w', evs) =
         (case open_wb (files w3) out d of
            Inl e \<Rightarrow> (Raised e, w3, (evs0 @ [?pu]) @ evs2 @ [Printed_saving out])
          | Inr fs \<Rightarrow>
              (Returned (), w3\<lparr>files := fs\<rparr>,
               (evs0 @ [?pu]) @ evs2 @ [Printed_saving out, File_written out d]))"
        unfolding out_def d_def w3_def by (simp add: Let_def)
      have "evs = evs0 @ ?pu # evs2 @ [Printed_saving out] \<or>
         evs = evs0 @ ?pu # evs2 @ [Printed_saving out, File_written out d]"
        using res by (cases "open_wb (files w3) out d") simp_all
      then show ?thesis
      proof
        assume e: "evs = evs0 @ ?pu # evs2 @ [Printed_saving out]"
        with sp show ?thesis
          apply -
          apply (rule exI[where x = r2])
          apply (rule exI[where x = evs2])
          apply (rule exI[where x = "[Printed_saving out]"])
          apply (simp; blast)
          done
      next
        assume e: "evs = evs0 @ ?pu # evs2 @ [Printed_saving out, File_written out d]"
        with sp Inr show ?thesis
          apply -
          apply (rule exI[where x = r2])
          apply (rule exI[where x = evs2])
          apply (rule exI[where x = "[Printed_saving out, File_written out d]"])
          apply (simp add: d_def; blast)
          done
      qed
    qed
  qed
qed

text \<open>
  Claim C5. Every call of \<^verbatim>\<open>MiniLockFile.new\<close> made in a run of \<^verbatim>\<open>main_encrypt\<close> has, as its
  sender, the lock that \<^verbatim>\<open>make_lock_securely\<close> returned, and as its recipients that lock
  followed by the identifiers given on the command line, whatever these are; so the sender is
  among the recipients. Every file the run writes holds the container that such a call
  returned (base64-encoded if asked). That the sender can open the container afterwards is
  a property of \<^verbatim>\<open>crypto.MiniLockFile\<close>, which receives the list.
\<close>

theorem main_encrypt_includes_sender:
  fixes C :: "('k, 'c) crypto"
  assumes "main_encrypt W C Y w A = (r, w', evs)"
  shows "(\<forall>i f c s rs. Sealed i f c s rs \<in> set evs \<longrightarrow>
            s \<in> set rs \<and>
            (\<exists>userKey. fst (make_lock_securely W C w) = Returned userKey \<and>
               s = PyUserLock userKey \<and> rs = PyUserLock userKey # map PyStr (recipient A))) \<and>
         (\<forall>out data. File_written out data \<in> set evs \<longrightarrow>
            (\<exists>i f c userKey crypted.
               fst (make_lock_securely W C w) = Returned userKey \<and>
               Sealed i f c (PyUserLock userKey) (PyUserLock userKey # map PyStr (recipient A))
                 \<in> set evs \<and>
               MiniLockFile_new C i f c (PyUserLock userKey)
                 (PyUserLock userKey # map PyStr (recipient A)) = Inr crypted \<and>
               data = (if base64 A then b64encode C crypted else crypted)))"
proof -
  obtain r0 w1 and evs0 :: "'k event list" where m: "make_lock_securely W C w = (r0, w1, evs0)"
    by (cases "make_lock_securely W C w") auto
  note me = make_lock_securely_events[OF m]
  show ?thesis
  proof (cases r0)
    case (Raised e)
    with m assms have "evs = evs0" by (simp add: main_encrypt_def)
    with me show ?thesis by simp
  next
    case Diverged
    with m assms have "evs = evs0" by (simp add: main_encrypt_def)
    with me show ?thesis by simp
  next
    case (Returned userKey)
    let ?s = "PyUserLock userKey" and ?rs = "PyUserLock userKey # map PyStr (recipient A)"
    from main_encrypt_events[OF assms m[unfolded Returned]] obtain r2 evs2 tl where
      H: "evs = evs0 @ Printed_user_id (userID C userKey) # evs2 @ tl \<and>
           (\<forall>i f c s rs. Sealed i f c s rs \<in> set evs2 \<longrightarrow>
              s = PyUserLock userKey \<and> rs = PyUserLock userKey # map PyStr (recipient A) \<and>
              r2 = MiniLockFile_new C i f c s rs) \<and>
           (\<forall>crypted. r2 = Inr crypted \<longrightarrow> (\<exists>i f c. Sealed i f c (PyUserLock userKey)
               (PyUserLock userKey # map PyStr (recipient A)) \<in> set evs2)) \<and>
           (\<forall>p d. File_written p d \<notin> set evs2) \<and>
           (\<forall>i f c s rs. Sealed i f c s rs \<notin> set tl) \<and>
           (\<forall>p d. File_written p d \<in> set tl \<longrightarrow>
              (\<exists>crypted. r2 = Inr crypted \<and>
                 d = (if base64 A then b64encode C crypted else crypted)))"
      by (elim exE)
    note evs = H[THEN conjunct1]
    note s1 = H[THEN conjunct2, THEN conjunct1, rule_format]
    note s2 = H[THEN conjunct2, THEN conjunct2, THEN conjunct1, rule_format]
    note s3 = H[THEN conjunct2, THEN conjunct2, THEN conjunct2, THEN conjunct1, rule_format]
    note t1 = H[THEN conjunct2, THEN conjunct2, THEN conjunct2, THEN conjunct2, THEN conjunct1,
                rule_format]
    note t2 = H[THEN conjunct2, THEN conjunct2, THEN conjunct2, THEN conjunct2, THEN conjunct2,
                rule_format]
    note m1 = me[THEN conjunct1, rule_format] and m2 = me[THEN conjunct2, rule_format]
    have k: "fst (make_lock_securely W C w) = Returned userKey" using m Returned by simp
    have A: "s \<in> set rs \<and> (\<exists>userKey. fst (make_lock_securely W C w) = Returned userKey \<and>
               s = PyUserLock userKey \<and> rs = PyUserLock userKey # map PyStr (recipient A))"
      if "Sealed i f c s rs \<in> set evs" for i f c s rs
    proof -
      from that have "Sealed i f c s rs \<in> set evs0 \<or> Sealed i f c s rs \<in> set evs2 \<or>
          Sealed i f c s rs \<in> set tl"
        unfolding evs by auto
      with m1 t1 have "Sealed i f c s rs \<in> set evs2" by blast
      from s1[OF this] k show ?thesis by simp
    qed
    have B: "\<exists>i f c userKey crypted.
               fst (make_lock_securely W C w) = Returned userKey \<and>
               Sealed i f c (PyUserLock userKey) (PyUserLock userKey # map PyStr (recipient A))
                 \<in> set evs \<and>
               MiniLockFile_new C i f c (PyUserLock userKey)
                 (PyUserLock userKey # map PyStr (recipient A)) = Inr crypted \<and>
               data = (if base64 A then b64encode C crypted else crypted)"
      if "File_written out data \<in> set evs" for out data
    proof -
      from that have "File_written out data \<in> set evs0 \<or> File_written out data \<in> set evs2 \<or>
          File_written out data \<in> set tl"
        unfolding evs by auto
      with m2 s3 have "File_written out data \<in> set tl" by blast
      from t2[OF this] obtain crypted where
        c: "r2 = Inr crypted" "data = (if base64 A then b64encode C crypted else crypted)" by blast
      from s2[OF c(1)] obtain i f c where sl: "Sealed i f c ?s ?rs \<in> set evs2" by blast
      from s1[OF sl] c(1) have "MiniLockFile_new C i f c ?s ?rs = Inr crypted" by simp
      moreover from sl have "Sealed i f c ?s ?rs \<in> set evs" unfolding evs by simp
      ultimately show ?thesis using k c(2) by blast
    qed
    from A B show ?thesis by blast
  qed
qed

theorem main_encrypt_includes_sender_witness:
  "Sealed 4 ''hi.txt'' [104, 101, 108, 108, 111]
      (PyUserLock (''alice@example.com'', ''0123456789''))
      [PyUserLock (''alice@example.com'', ''0123456789''), PyStr ''bob'']
     \<in> set (snd (snd (main_encrypt ex_passwords ex_crypto ex_stdlib ex_world
          \<lparr>path = ''/a/hi.txt'', recipient = [''bob''], base64 = False, output_file = ''out''\<rparr>))) \<and>
   PyUserLock (''alice@example.com'', ''0123456789'')
     \<in> set [PyUserLock (''alice@example.com'', ''0123456789''), PyStr ''bob''] \<and>
   fst (make_lock_securely ex_passwords ex_crypto ex_world)
     = Returned (''alice@example.com'', ''0123456789'')"
proof -
  let ?A = "\<lparr>path = ''/a/hi.txt'', recipient = [''bob''], base64 = False, output_file = ''out''\<rparr>"
  let ?X = "main_encrypt ex_passwords ex_crypto ex_stdlib ex_world ?A"
  let ?k = "PyUserLock (''alice@example.com'', ''0123456789'') :: (string \<times> string) pyobj"
  have mem: "Sealed 4 ''hi.txt'' [104, 101, 108, 108, 111] ?k [?k, PyStr ''bob'']
     \<in> set (snd (snd ?X))"
    by code_simp
  have eq: "?X = (fst ?X, fst (snd ?X), snd (snd ?X))" by simp
  from main_encrypt_includes_sender [OF eq] mem
  have "?k \<in> set [?k, PyStr ''bob''] \<and>
        (\<exists>userKey. fst (make_lock_securely ex_passwords ex_crypto ex_world) = Returned userKey \<and>
           ?k = PyUserLock userKey \<and> [?k, PyStr ''bob''] = PyUserLock userKey # map PyStr (recipient ?A))"
    by blast
  with mem show ?thesis by auto
qed


section \<open>What the operations leave unchanged\<close>

text \<open>
  Claim C8. \<^verbatim>\<open>check_passphrase\<close>, \<^verbatim>\<open>encrypt_file\<close> and \<^verbatim>\<open>decrypt_file\<close> change no shared
  state. The state a call could change is the world: the files, \<^verbatim>\<open>Settings\<close>, the lines
  still to be typed and the number of random draws made. \<^verbatim>\<open>encrypt_file\<close> returns the world
  it was given, or that world with one more random draw (the fresh randomness of
  \<^verbatim>\<open>MiniLockFile.new\<close>); it writes no file; the sender and the recipients reach
  \<^verbatim>\<open>MiniLockFile.new\<close> as they were passed, together with the bytes that the source file
  had and still has. \<^verbatim>\<open>decrypt_file\<close> returns the world it was given and writes no file.
  \<^verbatim>\<open>check_passphrase\<close> takes no world and returns none: its result depends on its arguments,
  on the estimator and, of \<^verbatim>\<open>Settings\<close>, on \<^verbatim>\<open>minKeyEntropy\<close> only, which it reads.
\<close>

theorem file_operations_frame:
  fixes C :: "('k, 'c) crypto"
  shows "(fst (snd (encrypt_file C w file_path sender recipients)) = w \<or>
          fst (snd (encrypt_file C w file_path sender recipients)) = w\<lparr>rand := Suc (rand w)\<rparr>) \<and>
         (\<forall>i f c s rs.
            Sealed i f c s rs \<in> set (snd (snd (encrypt_file C w file_path sender recipients)))
              \<longrightarrow> s = sender \<and> rs = recipients \<and> files w file_path = Some (File c)) \<and>
         (\<forall>p d. File_written p d
              \<notin> set (snd (snd (encrypt_file C w file_path sender recipients)))) \<and>
         fst (snd (decrypt_file C w file_path recipient_key b64)) = w \<and>
         (\<forall>p d. File_written p d
              \<notin> set (snd (snd (decrypt_file C w file_path recipient_key b64)))) \<and>
         (\<forall>S'. minKeyEntropy S' = minKeyEntropy S \<longrightarrow>
            check_passphrase W S' pp email = check_passphrase W S pp email)"
proof -
  obtain a and evs0 :: "'k event list" where ar: "assert_recipients C recipients = (a, evs0)"
    by (cases "assert_recipients C recipients") auto
  from assert_recipients_events[OF ar] have
    n: "\<And>i f c s rs. Sealed i f c s rs \<notin> set evs0" "\<And>p d. File_written p d \<notin> set evs0"
    by auto
  have e1: "fst (snd (encrypt_file C w file_path sender recipients)) = w \<or>
          fst (snd (encrypt_file C w file_path sender recipients)) = w\<lparr>rand := Suc (rand w)\<rparr>"
    using ar by (simp add: encrypt_file_def Let_def split: option.splits sum.splits)
  have e2: "s = sender \<and> rs = recipients \<and> files w file_path = Some (File c)"
    if "Sealed i f c s rs \<in> set (snd (snd (encrypt_file C w file_path sender recipients)))"
    for i f c s rs
    using that ar n
    by (auto simp: encrypt_file_def Let_def open_rb_def
             split: option.splits sum.splits if_splits node.splits)
  have e3: "File_written p d \<notin> set (snd (snd (encrypt_file C w file_path sender recipients)))"
    for p d
    using ar n by (auto simp: encrypt_file_def Let_def split: option.splits sum.splits)
  have d1: "fst (snd (decrypt_file C w file_path recipient_key b64)) = w"
    by (simp add: decrypt_file_def split: option.splits sum.splits)
  have d2: "File_written p d \<notin> set (snd (snd (decrypt_file C w file_path recipient_key b64)))"
    for p d
    by (simp add: decrypt_file_def split: option.splits sum.splits)
  have c1: "check_passphrase W S' pp email = check_passphrase W S pp email"
    if "minKeyEntropy S' = minKeyEntropy S" for S'
    using that by (simp add: check_passphrase_def)
  from e1 e2 e3 d1 d2 c1 show ?thesis by blast
qed

theorem file_operations_frame_witness:
  "Sealed 0 ''hi.txt'' [104, 101, 108, 108, 111] (PyUserLock (''a'', ''b'')) [PyStr ''bob'']
     \<in> set (snd (snd (encrypt_file ex_crypto ex_world ''/a/hi.txt'' (PyUserLock (''a'', ''b''))
          [PyStr ''bob'']))) \<and>
   files ex_world ''/a/hi.txt'' = Some (File [104, 101, 108, 108, 111]) \<and>
   minKeyEntropy (default_Settings\<lparr>minPassphraseEntropy := 0\<rparr>) = minKeyEntropy default_Settings \<and>
   check_passphrase ex_passwords (default_Settings\<lparr>minPassphraseEntropy := 0\<rparr>) ''abc'' ''a@b''
     = check_passphrase ex_passwords default_Settings ''abc'' ''a@b''"
proof -
  let ?k = "PyUserLock (''a'', ''b'') :: (string \<times> string) pyobj"
  let ?E = "encrypt_file ex_crypto ex_world ''/a/hi.txt'' ?k [PyStr ''bob'']"
  have mem: "Sealed 0 ''hi.txt'' [104, 101, 108, 108, 111] ?k [PyStr ''bob''] \<in> set (snd (snd ?E))"
    by code_simp
  have s: "minKeyEntropy (default_Settings\<lparr>minPassphraseEntropy := 0\<rparr>)
             = minKeyEntropy default_Settings"
    by simp
  note T = file_operations_frame [of ex_crypto ex_world "''/a/hi.txt''" ?k "[PyStr ''bob'']"
      "PyUserLock (''a'', ''b'')" False default_Settings ex_passwords "''abc''" "''a@b''"]
  from T mem have "files ex_world ''/a/hi.txt'' = Some (File [104, 101, 108, 108, 111])" by blast
  moreover from T s have
    "check_passphrase ex_passwords (default_Settings\<lparr>minPassphraseEntropy := 0\<rparr>) ''abc'' ''a@b''
       = check_passphrase ex_passwords default_Settings ''abc'' ''a@b''" by blast
  ultimately show ?thesis using mem s by blast
qed


section \<open>The round trip\<close>

lemma concat_split_chunks: "concat (split_chunks n bs) = bs"
proof (induction n bs rule: split_chunks.induct)
  case (1 n bs)
  show ?case
  proof (cases "n = 0 \<or> length bs < n")
    case True
    then show ?thesis by (subst split_chunks.simps) simp
  next
    case False
    with 1 show ?thesis by (subst split_chunks.simps) simp
  qed
qed

lemma split_chunks_not_Nil: "split_chunks n bs \<noteq> []"
  by (subst split_chunks.simps) simp

lemma encrypt_from_Nil: "encrypt_from P k n i ps = [] \<longleftrightarrow> ps = []"
  by (cases ps) simp_all

lemma encrypt_from_last: "ps \<noteq> [] \<Longrightarrow> final (last (encrypt_from P k n i ps))"
  by (induction ps arbitrary: i) (auto simp: encrypt_from_Nil)

lemma decrypt_from_encrypt_from:
  assumes "\<And>k n m. secretbox_open P k n (secretbox P k n m) = Some m"
  shows "decrypt_from P k n i (encrypt_from P k n i ps) = Inr (concat ps)"
  by (induction ps arbitrary: i) (simp_all add: assms)

lemma decryptChunks_encryptChunks:
  assumes "\<And>k n m. secretbox_open P k n (secretbox P k n m) = Some m"
    and "encryptChunks P k n plaintext = (chunks, hashes)"
  shows "decryptChunks P k n hashes chunks = Inr plaintext"
  using assms(2)
  by (auto simp: encryptChunks_def decryptChunks_def Let_def
        decrypt_from_encrypt_from[OF assms(1)] concat_split_chunks)

lemma unwrap_wrap:
  assumes box: "\<And>e r fileInfo. box_open P r (keypair P e) (box P e (keypair P r) fileInfo) = Some fileInfo"
    and tags: "inj_on (keyed_hash P) (set pks)"
    and mem: "keypair P r \<in> set pks"
  shows "unwrap P r (keypair P e) (map (\<lambda>pk. wrap P e pk fileInfo) pks) = Inr fileInfo"
  using tags mem
proof (induction pks)
  case Nil
  then show ?case by simp
next
  case (Cons pk pks)
  show ?case
  proof (cases "keyed_hash P pk = keyed_hash P (keypair P r)")
    case True
    with Cons.prems have "pk = keypair P r" by (auto dest: inj_onD)
    with box show ?thesis by (simp add: wrap_def)
  next
    case False
    with Cons.prems have "keypair P r \<in> set pks" "inj_on (keyed_hash P) (set pks)" by auto
    with Cons.IH False show ?thesis by (simp add: wrap_def)
  qed
qed

lemma open_container_seal:
  assumes box: "\<And>e r fileInfo. box_open P r (keypair P e) (box P e (keypair P r) fileInfo) = Some fileInfo"
    and sbox: "\<And>k n m. secretbox_open P k n (secretbox P k n m) = Some m"
    and ids: "decode_all P recipients = Inr pks"
    and tags: "inj_on (keyed_hash P) (set (publicKey sender # pks))"
    and who: "publicKey r \<in> set (publicKey sender # pks)"
    and pair: "keypair P (secretKey r) = publicKey r"
  shows "\<exists>c. seal P R sender recipients name plaintext = Inr c \<and>
             open_container P r c = Inr (name, plaintext)"
proof -
  obtain chunks hashes where
    ec: "encryptChunks P (freshFileKey R) (freshFileNonce R) plaintext = (chunks, hashes)"
    by (cases "encryptChunks P (freshFileKey R) (freshFileNonce R) plaintext") auto
  define fileInfo where "fileInfo = \<lparr>fileKey = freshFileKey R, fileNonce = freshFileNonce R,
     fileName = name, senderPublicKey = publicKey sender, chunkHashes = hashes\<rparr>"
  define c where "c = \<lparr>version = 1, ephemeralPublicKey = keypair P (ephemeralSecretKey R),
     entries = map (\<lambda>pk. wrap P (ephemeralSecretKey R) pk fileInfo) (publicKey sender # pks),
     body = chunks\<rparr>"
  have s: "seal P R sender recipients name plaintext = Inr c"
    by (simp add: seal_def ids ec Let_def c_def fileInfo_def)
  have ch: "chunks = encrypt_from P (freshFileKey R) (freshFileNonce R) 0
                       (split_chunks (chunk_size P) plaintext)"
    using ec by (auto simp: encryptChunks_def Let_def)
  have b: "body c \<noteq> [] \<and> final (last (body c))"
    unfolding c_def using encrypt_from_last[OF split_chunks_not_Nil] split_chunks_not_Nil
    by (simp add: ch encrypt_from_Nil)
  from who pair have "keypair P (secretKey r) \<in> set (publicKey sender # pks)" by simp
  from unwrap_wrap[OF box tags this] have
    u: "unwrap P (secretKey r) (ephemeralPublicKey c) (entries c) = Inr fileInfo"
    by (simp add: c_def)
  have d: "decryptChunks P (fileKey fileInfo) (fileNonce fileInfo) (chunkHashes fileInfo) (body c)
             = Inr plaintext"
    using decryptChunks_encryptChunks[OF sbox ec] by (simp add: fileInfo_def c_def)
  have v: "version c = 1" by (simp add: c_def)
  have "open_container P r c = Inr (name, plaintext)"
    using b by (simp add: open_container_def v u d) (simp add: fileInfo_def)
  with s show ?thesis by blast
qed

text \<open>
  Claim C1. With \<^verbatim>\<open>crypto\<close> as the specification describes it, the bytes that
  \<^verbatim>\<open>encrypt_file\<close> returns for a file, a sender and recipients, once they are the
  contents of a file, are opened by \<^verbatim>\<open>decrypt_file\<close> for the sender and for every identity
  whose public key is that of a recipient identifier, and the result is the name of the
  source file and its bytes. This is so when a box opens for the pair of keys it was made
  for, when an encrypted chunk opens under its key and nonce, when no two of the public keys
  the file key is wrapped for have the same lookup tag, when the bytes of the sealed
  container read back as that container, and when \<^verbatim>\<open>assert_type_and_length\<close> accepts the
  keys.
\<close>

theorem encrypt_file_decrypt_file:
  fixes P :: "'w primitives" and B :: "'w binding"
  assumes box: "\<And>e r fileInfo. box_open P r (keypair P e) (box P e (keypair P r) fileInfo) = Some fileInfo"
    and sbox: "\<And>k n m. secretbox_open P k n (secretbox P k n m) = Some m"
    and ids: "decode_all P (map identifier_of recipients) = Inr pks"
    and tags: "inj_on (keyed_hash P) (set (publicKey sender # pks))"
    and codec: "\<And>c. seal P (draw B (rand w)) sender (map identifier_of recipients)
                      (path_split_tail file_path) plaintext = Inr c
                    \<Longrightarrow> parse B (serialize B c) = Inr c"
    and types: "\<forall>k\<in>set recipients. accepts B ''recipient_key'' k [T_str, T_UserLock] = None"
       "accepts B ''sender_key'' (PyUserLock sender) [T_UserLock] = None"
       "accepts B ''recipient_key'' (PyUserLock r) [T_UserLock] = None"
    and src: "files w file_path = Some (File plaintext)"
    and who: "r = sender \<or> publicKey r \<in> set pks"
    and pair: "keypair P (secretKey r) = publicKey r"
  shows "\<exists>crypted.
           fst (encrypt_file (spec_crypto P B) w file_path (PyUserLock sender) recipients)
             = Inr crypted \<and>
           (\<forall>w2 out. files w2 out = Some (File crypted) \<longrightarrow>
              fst (decrypt_file (spec_crypto P B) w2 out (PyUserLock r) False)
                = Inr (path_split_tail file_path, plaintext))"
proof -
  let ?C = "spec_crypto P B"
  from who have who': "publicKey r \<in> set (publicKey sender # pks)" by auto
  from open_container_seal[OF box sbox ids tags who' pair] obtain c where
    s: "seal P (draw B (rand w)) sender (map identifier_of recipients)
          (path_split_tail file_path) plaintext = Inr c" and
    oc: "open_container P r c = Inr (path_split_tail file_path, plaintext)"
    by blast
  from types(1) have "assert_recipients ?C recipients
      = (None, map (\<lambda>k. Asserted ''recipient_key'' k [T_str, T_UserLock]) recipients)"
    by (intro assert_recipients_valid) (simp add: spec_crypto_def)
  with types(2) src s have
    e: "fst (encrypt_file ?C w file_path (PyUserLock sender) recipients) = Inr (serialize B c)"
    by (simp add: encrypt_file_def spec_crypto_def path_exists_def path_isfile_def open_rb_def Let_def)
  have "fst (decrypt_file ?C w2 out (PyUserLock r) False)
          = Inr (path_split_tail file_path, plaintext)"
    if "files w2 out = Some (File (serialize B c))" for w2 out
    using that types(3) codec[OF s] oc
    by (simp add: decrypt_file_def spec_crypto_def open_rb_def)
  with e show ?thesis by blast
qed

theorem encrypt_file_decrypt_file_witness:
  "fst (encrypt_file (spec_crypto ex_primitives ex_binding) ex_world ''/a/hi.txt''
          (PyUserLock ex_identity) [PyStr ''bob'']) = Inr [109, 105, 110, 105] \<and>
   fst (decrypt_file (spec_crypto ex_primitives ex_binding)
          (ex_world\<lparr>files := [''/b/c.minilock'' \<mapsto> File [109, 105, 110, 105]]\<rparr>)
          ''/b/c.minilock'' (PyUserLock ex_bob) False)
     = Inr (''hi.txt'', [104, 101, 108, 108, 111])"
proof -
  let ?P = ex_primitives and ?B = ex_binding
  let ?w2 = "ex_world\<lparr>files := [''/b/c.minilock'' \<mapsto> File [109, 105, 110, 105]]\<rparr>"
  have box: "\<And>e r fileInfo.
      box_open ?P r (keypair ?P e) (box ?P e (keypair ?P r) fileInfo) = Some fileInfo"
    by (simp add: ex_primitives_def)
  have sbox: "\<And>k n m. secretbox_open ?P k n (secretbox ?P k n m) = Some m"
    by (simp add: ex_primitives_def)
  have ids: "decode_all ?P (map identifier_of [PyStr ''bob'']) = Inr [[2, 3]]"
    by (simp add: ex_primitives_def)
  have tags: "inj_on (keyed_hash ?P) (set (publicKey ex_identity # [[2, 3]]))"
    by (simp add: ex_primitives_def ex_identity_def)
  have "decode_all ?P [''bob''] = Inr [[2, 3]]"
    by (simp add: ex_primitives_def)
  then have "\<exists>c. seal ?P (ex_draw 0) ex_identity [''bob''] ''hi.txt'' [104, 101, 108, 108, 111]
              = Inr c"
    by (simp add: seal_def Let_def split: prod.splits)
  then have sl: "seal ?P (ex_draw 0) ex_identity [''bob''] ''hi.txt'' [104, 101, 108, 108, 111]
              = Inr ex_container"
    by (auto simp: ex_container_def)
  have codec: "\<And>c. seal ?P (draw ?B (rand ex_world)) ex_identity (map identifier_of [PyStr ''bob''])
                      (path_split_tail ''/a/hi.txt'') [104, 101, 108, 108, 111] = Inr c
                    \<Longrightarrow> parse ?B (serialize ?B c) = Inr c"
  proof -
    fix c
    have "path_split_tail ''/a/hi.txt'' = ''hi.txt''" by (simp add: path_split_tail_def)
    moreover assume "seal ?P (draw ?B (rand ex_world)) ex_identity (map identifier_of [PyStr ''bob''])
                      (path_split_tail ''/a/hi.txt'') [104, 101, 108, 108, 111] = Inr c"
    ultimately have "c = ex_container" using sl by (simp add: ex_binding_def ex_world_def)
    then show "parse ?B (serialize ?B c) = Inr c" by (simp add: ex_binding_def)
  qed
  have types: "\<forall>k\<in>set [PyStr ''bob'']. accepts ?B ''recipient_key'' k [T_str, T_UserLock] = None"
    "accepts ?B ''sender_key'' (PyUserLock ex_identity) [T_UserLock] = None"
    "accepts ?B ''recipient_key'' (PyUserLock ex_bob) [T_UserLock] = None"
    by (simp_all add: ex_binding_def)
  have src: "files ex_world ''/a/hi.txt'' = Some (File [104, 101, 108, 108, 111])"
    by (simp add: ex_world_def)
  have who: "ex_bob = ex_identity \<or> publicKey ex_bob \<in> set [[2, 3]]"
    by (simp add: ex_bob_def)
  have pair: "keypair ?P (secretKey ex_bob) = publicKey ex_bob"
    by (simp add: ex_primitives_def ex_bob_def)
  from encrypt_file_decrypt_file[OF box sbox ids tags codec types src who pair]
  obtain crypted where
    e: "fst (encrypt_file (spec_crypto ?P ?B) ex_world ''/a/hi.txt''
          (PyUserLock ex_identity) [PyStr ''bob'']) = Inr crypted" and
    d: "\<And>w2 out. files w2 out = Some (File crypted) \<Longrightarrow>
          fst (decrypt_file (spec_crypto ?P ?B) w2 out (PyUserLock ex_bob) False)
            = Inr (path_split_tail ''/a/hi.txt'', [104, 101, 108, 108, 111])"
    by blast
  have e': "fst (encrypt_file (spec_crypto ?P ?B) ex_world ''/a/hi.txt''
          (PyUserLock ex_identity) [PyStr ''bob'']) = Inr [109, 105, 110, 105]"
    by code_simp
  with e have c: "crypted = [109, 105, 110, 105]" by simp
  have "files ?w2 ''/b/c.minilock'' = Some (File crypted)" by (simp add: c)
  from d[OF this] have "fst (decrypt_file (spec_crypto ?P ?B) ?w2 ''/b/c.minilock''
      (PyUserLock ex_bob) False) = Inr (''hi.txt'', [104, 101, 108, 108, 111])"
    by (simp add: path_split_tail_def)
  with e' show ?thesis by simp
qed

end
